theory Spec2Isabelle
  imports Main "HOL-Library.AList"
begin

section \<open>The contact directory of hw.py\<close>

text \<open>
  A shallow embedding of \<^verbatim>\<open>hw.py\<close>: the validated fields, the contact record, the
  address book with its upcoming-birthdays query, and the command handlers behind the
  \<^verbatim>\<open>input_error\<close> decorator. Mutation is explicit state passing, every \<^verbatim>\<open>raise\<close> is a
  value of the type \<open>error\<close>, and the calendar date the query reads from the clock is an
  argument.
\<close>

subsection \<open>Python strings\<close>

text \<open>
  A Python \<^verbatim>\<open>str\<close> is a sequence of Unicode code points, and \<^verbatim>\<open>len\<close> counts code points.
  A character is therefore modelled by the number of its code point, and a literal of
  the source is written \<open>lit ''...''\<close>.
\<close>

type_synonym pystr = "nat list"

definition lit :: "string \<Rightarrow> pystr" where
  "lit s = map of_char s"

text \<open>
  The two character tables of the interpreter's Unicode database (version 14.0.0, as
  shipped with CPython 3.11) that the source reaches through \<^verbatim>\<open>str.isdigit\<close> and through
  the \<^verbatim>\<open>\d\<close> of the regular expressions of \<^verbatim>\<open>strptime\<close>. Decimal digits (category Nd) come
  in runs of ten, listed by the code point of their zero; \<^verbatim>\<open>str.isdigit\<close> accepts, besides
  these, the characters whose numeric type is Digit (superscripts, circled digits, ...).
\<close>

definition decimal_zeros :: "nat list" where
  "decimal_zeros =
    [48, 1632, 1776, 1984, 2406, 2534, 2662, 2790, 2918, 3046, 3174, 3302, 3430,
     3558, 3664, 3792, 3872, 4160, 4240, 6112, 6160, 6470, 6608, 6784, 6800, 6992,
     7088, 7232, 7248, 42528, 43216, 43264, 43472, 43504, 43600, 44016, 65296, 66720,
     68912, 69734, 69872, 69942, 70096, 70384, 70736, 70864, 71248, 71360, 71472,
     71904, 72016, 72784, 73040, 73120, 92768, 92864, 93008, 120782, 120792, 120802,
     120812, 120822, 123200, 123632, 125264, 130032]"

definition other_digit_ranges :: "(nat \<times> nat) list" where
  "other_digit_ranges =
    [(178, 179), (185, 185), (4969, 4977), (6618, 6618), (8304, 8304), (8308, 8313),
     (8320, 8329), (9312, 9320), (9332, 9340), (9352, 9360), (9450, 9450),
     (9461, 9469), (9471, 9471), (10102, 10110), (10112, 10120), (10122, 10130),
     (68160, 68163), (69216, 69224), (69714, 69722), (127232, 127242)]"

text \<open>The value of a decimal digit character, as \<^verbatim>\<open>int\<close> reads it; \<open>None\<close> for any other character.\<close>

definition decimal_value :: "nat \<Rightarrow> nat option" where
  "decimal_value c =
     (case filter (\<lambda>z. z \<le> c \<and> c < z + 10) decimal_zeros of
        [] \<Rightarrow> None
      | z # _ \<Rightarrow> Some (c - z))"

definition isdecimal_char :: "nat \<Rightarrow> bool" where
  "isdecimal_char c = (decimal_value c \<noteq> None)"

definition isdigit_char :: "nat \<Rightarrow> bool" where
  "isdigit_char c =
     (isdecimal_char c \<or> list_ex (\<lambda>(lo, hi). lo \<le> c \<and> c \<le> hi) other_digit_ranges)"

text \<open>\<^verbatim>\<open>str.isdigit\<close>: every character is a digit and there is at least one character.\<close>

definition isdigit :: "pystr \<Rightarrow> bool" where
  "isdigit s = (s \<noteq> [] \<and> list_all isdigit_char s)"

text \<open>The ten ASCII digits \<^verbatim>\<open>0\<close> to \<^verbatim>\<open>9\<close>.\<close>

definition ascii_digit :: "nat \<Rightarrow> bool" where
  "ascii_digit c = (48 \<le> c \<and> c \<le> 57)"

text \<open>\<^verbatim>\<open>str(n)\<close> for a natural number, and the zero-padded fields of width two and four.\<close>

fun str_nat :: "nat \<Rightarrow> pystr" where
  "str_nat n = (if n < 10 then [48 + n] else str_nat (n div 10) @ [48 + n mod 10])"

declare str_nat.simps [simp del]

definition pad2 :: "nat \<Rightarrow> pystr" where
  "pad2 n = [48 + n div 10 mod 10, 48 + n mod 10]"

definition pad4 :: "nat \<Rightarrow> pystr" where
  "pad4 n = [48 + n div 1000 mod 10, 48 + n div 100 mod 10, 48 + n div 10 mod 10, 48 + n mod 10]"

text \<open>\<^verbatim>\<open>sep.join(xs)\<close>.\<close>

fun join :: "pystr \<Rightarrow> pystr list \<Rightarrow> pystr" where
  "join sep [] = []"
| "join sep [x] = x"
| "join sep (x # y # ys) = x @ sep @ join sep (y # ys)"

subsection \<open>Exceptions\<close>

text \<open>
  The exceptions that the source raises or that the interpreter raises on its behalf,
  each with the text \<^verbatim>\<open>str(e)\<close> gives. \<^verbatim>\<open>KeyError\<close> is raised without an argument, and
  nothing in the source raises \<^verbatim>\<open>IndexError\<close>; it is here because \<^verbatim>\<open>input_error\<close> has a
  clause for it.
\<close>

datatype error =
    ValueError pystr
  | KeyError
  | IndexError
  | TypeError pystr
  | OverflowError pystr

subsection \<open>Phone\<close>

text \<open>
  \<^verbatim>\<open>Phone.validate\<close> (lines 18-20) on the stored value: returns nothing, or raises the
  \<^verbatim>\<open>ValueError\<close> with the phone message.
\<close>

definition phone_msg :: pystr where
  "phone_msg = lit ''Phone number must contain 10 digits.''"

definition validate :: "pystr \<Rightarrow> error + unit" where
  "validate v =
     (if length v \<noteq> 10 \<or> \<not> isdigit v then Inl (ValueError phone_msg) else Inr ())"

subsection \<open>Calendar dates\<close>

text \<open>
  \<^verbatim>\<open>datetime.date\<close>: the proleptic Gregorian calendar over the years 1 to 9999, with the
  functions of the standard library that the source calls. The constructor checks the
  year, the month and the day in this order and raises \<^verbatim>\<open>ValueError\<close>.
\<close>

record date =
  year :: int
  month :: int
  day :: int

definition is_leap :: "int \<Rightarrow> bool" where
  "is_leap y = (y mod 4 = 0 \<and> (y mod 100 \<noteq> 0 \<or> y mod 400 = 0))"

definition days_in_month :: "int \<Rightarrow> int \<Rightarrow> int" where
  "days_in_month y m =
     (if m = 2 \<and> is_leap y then 29
      else [31, 28, 31, 30, 31, 30, 31, 31, 30, 31, 30, 31] ! nat (m - 1))"

definition days_before_year :: "int \<Rightarrow> int" where
  "days_before_year y =
     (y - 1) * 365 + (y - 1) div 4 - (y - 1) div 100 + (y - 1) div 400"

definition days_before_month :: "int \<Rightarrow> int \<Rightarrow> int" where
  "days_before_month y m =
     [0, 31, 59, 90, 120, 151, 181, 212, 243, 273, 304, 334] ! nat (m - 1)
       + (if 2 < m \<and> is_leap y then 1 else 0)"

definition valid_date :: "date \<Rightarrow> bool" where
  "valid_date d =
     (1 \<le> year d \<and> year d \<le> 9999 \<and> 1 \<le> month d \<and> month d \<le> 12
        \<and> 1 \<le> day d \<and> day d \<le> days_in_month (year d) (month d))"

definition year_range_msg :: "int \<Rightarrow> pystr" where
  "year_range_msg y =
     lit ''year '' @ (if y < 0 then lit ''-'' else []) @ str_nat (nat \<bar>y\<bar>) @ lit '' is out of range''"

definition new_date :: "int \<Rightarrow> int \<Rightarrow> int \<Rightarrow> error + date" where
  "new_date y m d =
     (if y < 1 \<or> 9999 < y then Inl (ValueError (year_range_msg y))
      else if m < 1 \<or> 12 < m then Inl (ValueError (lit ''month must be in 1..12''))
      else if d < 1 \<or> days_in_month y m < d
        then Inl (ValueError (lit ''day is out of range for month''))
      else Inr \<lparr>year = y, month = m, day = d\<rparr>)"

text \<open>\<^verbatim>\<open>d.replace(year=y)\<close> builds a new date from the changed fields.\<close>

definition replace_year :: "date \<Rightarrow> int \<Rightarrow> error + date" where
  "replace_year d y = new_date y (month d) (day d)"

text \<open>\<^verbatim>\<open>d.toordinal()\<close>: day 1 is 0001-01-01. \<^verbatim>\<open>d.weekday()\<close>: Monday is 0, Sunday is 6.\<close>

definition toordinal :: "date \<Rightarrow> int" where
  "toordinal d = days_before_year (year d) + days_before_month (year d) (month d) + day d"

definition weekday :: "date \<Rightarrow> int" where
  "weekday d = (toordinal d + 6) mod 7"

text \<open>\<^verbatim>\<open>a < b\<close> on dates compares year, month and day in this order.\<close>

definition date_less :: "date \<Rightarrow> date \<Rightarrow> bool" where
  "date_less a b =
     (year a < year b \<or> (year a = year b \<and>
        (month a < month b \<or> (month a = month b \<and> day a < day b))))"

text \<open>\<^verbatim>\<open>(a - b).days\<close>.\<close>

definition days_between :: "date \<Rightarrow> date \<Rightarrow> int" where
  "days_between a b = toordinal a - toordinal b"

text \<open>
  \<^verbatim>\<open>d + timedelta(days=n)\<close> for \<open>n \<ge> 0\<close> is the date whose ordinal is \<open>n\<close> more, and an
  \<^verbatim>\<open>OverflowError\<close> past 9999-12-31. The source adds one or two days only, so the sum is
  modelled by stepping to the following day; \<open>toordinal_add_days\<close> below relates it to
  the ordinal.
\<close>

definition next_day :: "date \<Rightarrow> date" where
  "next_day d =
     (if day d < days_in_month (year d) (month d) then d\<lparr>day := day d + 1\<rparr>
      else if month d < 12 then d\<lparr>month := month d + 1, day := 1\<rparr>
      else \<lparr>year = year d + 1, month = 1, day = 1\<rparr>)"

fun add_days :: "date \<Rightarrow> nat \<Rightarrow> error + date" where
  "add_days d 0 = Inr d"
| "add_days d (Suc n) =
     (if year d = 9999 \<and> month d = 12 \<and> day d = 31
        then Inl (OverflowError (lit ''date value out of range''))
      else add_days (next_day d) n)"

subsection \<open>Birthday\<close>

text \<open>
  \<^verbatim>\<open>datetime.strptime(value, "%Y.%m.%d")\<close>. The library turns the format into the regular
  expression
  \<^verbatim>\<open>(?P<Y>\d\d\d\d)\.(?P<m>1[0-2]|0[1-9]|[1-9])\.(?P<d>3[0-1]|[1-2]\d|0[1-9]|[1-9]| [1-9])\<close>,
  matches it at the start of the text, reads the three groups with \<^verbatim>\<open>int\<close>, rejects text
  left over after the match and builds the date. Each piece below returns its matches
  in the order in which the backtracking matcher tries them, each with the text that
  remains, so the head of the list is the match the library finds.
\<close>

definition re_d :: "pystr \<Rightarrow> (nat \<times> pystr) list" where
  "re_d s =
     (case s of
        [] \<Rightarrow> []
      | c # r \<Rightarrow> (case decimal_value c of None \<Rightarrow> [] | Some v \<Rightarrow> [(v, r)]))"

definition re_range :: "nat \<Rightarrow> nat \<Rightarrow> pystr \<Rightarrow> (nat \<times> pystr) list" where
  "re_range lo hi s =
     (case s of
        [] \<Rightarrow> []
      | c # r \<Rightarrow> if 48 + lo \<le> c \<and> c \<le> 48 + hi then [(c - 48, r)] else [])"

definition re_char :: "nat \<Rightarrow> pystr \<Rightarrow> pystr list" where
  "re_char ch s = (case s of [] \<Rightarrow> [] | c # r \<Rightarrow> if c = ch then [r] else [])"

definition re_Y :: "pystr \<Rightarrow> (nat \<times> pystr) list" where
  "re_Y s =
     [(1000 * a + 100 * b + 10 * c + d, r4).
        (a, r1) \<leftarrow> re_d s, (b, r2) \<leftarrow> re_d r1, (c, r3) \<leftarrow> re_d r2, (d, r4) \<leftarrow> re_d r3]"

definition re_m :: "pystr \<Rightarrow> (nat \<times> pystr) list" where
  "re_m s =
     [(10 + v, r2). r1 \<leftarrow> re_char 49 s, (v, r2) \<leftarrow> re_range 0 2 r1]
     @ [(v, r2). r1 \<leftarrow> re_char 48 s, (v, r2) \<leftarrow> re_range 1 9 r1]
     @ re_range 1 9 s"

definition re_dd :: "pystr \<Rightarrow> (nat \<times> pystr) list" where
  "re_dd s =
     [(30 + v, r2). r1 \<leftarrow> re_char 51 s, (v, r2) \<leftarrow> re_range 0 1 r1]
     @ [(10 * a + b, r2). (a, r1) \<leftarrow> re_range 1 2 s, (b, r2) \<leftarrow> re_d r1]
     @ [(v, r2). r1 \<leftarrow> re_char 48 s, (v, r2) \<leftarrow> re_range 1 9 r1]
     @ re_range 1 9 s
     @ [(v, r2). r1 \<leftarrow> re_char 32 s, (v, r2) \<leftarrow> re_range 1 9 r1]"

definition re_format :: "pystr \<Rightarrow> ((nat \<times> nat \<times> nat) \<times> pystr) list" where
  "re_format s =
     [((y, m, d), r5).
        (y, r1) \<leftarrow> re_Y s, r2 \<leftarrow> re_char 46 r1, (m, r3) \<leftarrow> re_m r2,
        r4 \<leftarrow> re_char 46 r3, (d, r5) \<leftarrow> re_dd r4]"

text \<open>\<open>None\<close> stands for the \<^verbatim>\<open>ValueError\<close> of \<^verbatim>\<open>strptime\<close>, whose text the source discards.\<close>

definition strptime :: "pystr \<Rightarrow> date option" where
  "strptime s =
     (case re_format s of
        [] \<Rightarrow> None
      | ((y, m, d), rest) # _ \<Rightarrow>
          if rest \<noteq> [] then None
          else (case new_date (int y) (int m) (int d) of Inl _ \<Rightarrow> None | Inr dt \<Rightarrow> Some dt))"

text \<open>
  \<^verbatim>\<open>strftime("%Y.%m.%d")\<close>. The month and the day are zero-padded to two digits. The
  year is what the C library's \<^verbatim>\<open>%Y\<close> prints: four digits with leading zeros on some
  platforms (and in CPython from 3.13 on), the plain decimal number with the GNU C
  library under CPython up to 3.12. The two differ for years below 1000, so the style
  is an argument of every function that renders a date.
\<close>

datatype year_style = ZeroPadded | Unpadded

definition strftime :: "year_style \<Rightarrow> date \<Rightarrow> pystr" where
  "strftime ys d =
     (case ys of ZeroPadded \<Rightarrow> pad4 (nat (year d)) | Unpadded \<Rightarrow> str_nat (nat (year d)))
      @ lit ''.'' @ pad2 (nat (month d)) @ lit ''.'' @ pad2 (nat (day d))"

definition birthday_msg :: pystr where
  "birthday_msg = lit ''Invalid date format. Use YYYY.MM.DD''"

text \<open>
  \<^verbatim>\<open>Birthday(value)\<close> (lines 24-28) and \<^verbatim>\<open>str(birthday)\<close> (lines 30-31). The stored
  \<^verbatim>\<open>datetime\<close> has the time 00:00 and the source reads only its date.
\<close>

definition Birthday :: "pystr \<Rightarrow> error + date" where
  "Birthday v = (case strptime v of None \<Rightarrow> Inl (ValueError birthday_msg) | Some d \<Rightarrow> Inr d)"

definition Birthday_str :: "year_style \<Rightarrow> date \<Rightarrow> pystr" where
  "Birthday_str ys b = strftime ys b"

subsection \<open>Record\<close>

text \<open>
  A contact: its name, its phones in insertion order, and its birthday if one is set.
  A method that mutates the record returns the record it leaves behind, next to what
  it returns or raises.
\<close>

record Record =
  name :: pystr
  phones :: "pystr list"
  birthday :: "date option"

definition new_Record :: "pystr \<Rightarrow> Record" where
  "new_Record nm = \<lparr>name = nm, phones = [], birthday = None\<rparr>"

definition add_phone :: "Record \<Rightarrow> pystr \<Rightarrow> (error + unit) \<times> Record" where
  "add_phone r phone =
     (case validate phone of
        Inl e \<Rightarrow> (Inl e, r)
      | Inr _ \<Rightarrow> (Inr (), r\<lparr>phones := phones r @ [phone]\<rparr>))"

definition remove_phone :: "Record \<Rightarrow> pystr \<Rightarrow> Record" where
  "remove_phone r phone = r\<lparr>phones := filter (\<lambda>p. p \<noteq> phone) (phones r)\<rparr>"

definition edit_phone :: "Record \<Rightarrow> pystr \<Rightarrow> pystr \<Rightarrow> (error + unit) \<times> Record" where
  "edit_phone r old_phone new_phone = add_phone (remove_phone r old_phone) new_phone"

definition Record_add_birthday :: "Record \<Rightarrow> pystr \<Rightarrow> (error + unit) \<times> Record" where
  "Record_add_birthday r b =
     (case Birthday b of
        Inl e \<Rightarrow> (Inl e, r)
      | Inr d \<Rightarrow> (Inr (), r\<lparr>birthday := Some d\<rparr>))"

definition Record_str :: "year_style \<Rightarrow> Record \<Rightarrow> pystr" where
  "Record_str ys r =
     lit ''Contact name: '' @ name r @ lit '', phones: '' @ join (lit '', '') (phones r)
       @ (case birthday r of None \<Rightarrow> [] | Some b \<Rightarrow> lit '', birthday: '' @ Birthday_str ys b)"

subsection \<open>AddressBook\<close>

text \<open>
  The dictionary of the \<^verbatim>\<open>UserDict\<close>, as the list of its items in insertion order: a
  dictionary keeps the place of a key whose value is overwritten and puts a new key
  last, which is what \<open>AList.update\<close> does. A state of the dictionary has no key twice.
\<close>

type_synonym AddressBook = "(pystr \<times> Record) list"

definition add_record :: "AddressBook \<Rightarrow> Record \<Rightarrow> AddressBook" where
  "add_record book r = AList.update (name r) r book"

definition find_record :: "AddressBook \<Rightarrow> pystr \<Rightarrow> Record option" where
  "find_record book nm = map_of book nm"

definition delete_record :: "AddressBook \<Rightarrow> pystr \<Rightarrow> AddressBook" where
  "delete_record book nm = (if nm \<in> fst ` set book then AList.delete nm book else book)"

text \<open>
  The records of the book are objects that the handlers mutate in place: a handler
  holds the object that the dictionary holds under a key, and what it does to the
  object shows in the book. \<open>store book k r\<close> is the book after the object under the
  key \<open>k\<close> has reached the state \<open>r\<close>. Mutating an object adds no key, so where the
  book has no key \<open>k\<close> it is unchanged.
\<close>

definition store :: "AddressBook \<Rightarrow> pystr \<Rightarrow> Record \<Rightarrow> AddressBook" where
  "store book k r = AList.map_entry k (\<lambda>_. r) book"

subsection \<open>Upcoming birthdays\<close>

record entry =
  entry_name :: pystr
  congratulation_date :: date
  days_until_birthday :: int

text \<open>Lines 80-84: the birthday in the year of \<open>today\<close>, or in the next year if that is past.\<close>

definition birthday_this_year :: "date \<Rightarrow> date \<Rightarrow> error + date" where
  "birthday_this_year today b =
     (case replace_year b (year today) of
        Inl e \<Rightarrow> Inl e
      | Inr bty \<Rightarrow> if date_less bty today then replace_year bty (year today + 1) else Inr bty)"

text \<open>Lines 86-93: a Saturday moves two days on, a Sunday one day.\<close>

definition congratulation :: "date \<Rightarrow> error + date" where
  "congratulation bty =
     (if weekday bty = 5 then add_days bty 2
      else if weekday bty = 6 then add_days bty 1
      else Inr bty)"

text \<open>
  \<^verbatim>\<open>birthdays_dict\<close>: an insertion-ordered dictionary from a congratulation date to the
  pair of that date and the names collected for it (lines 98-103).
\<close>

type_synonym birthdays_dict = "(date \<times> (date \<times> pystr list)) list"

definition note_birthday :: "date \<Rightarrow> pystr \<Rightarrow> birthdays_dict \<Rightarrow> birthdays_dict" where
  "note_birthday c nm bd =
     (if map_of bd c = None then AList.update c (c, [nm]) bd
      else AList.map_entry c (\<lambda>(cd, users). (cd, users @ [nm])) bd)"

text \<open>The loop of lines 77-103 over the records, in the order of the dictionary.\<close>

fun scan_records :: "date \<Rightarrow> Record list \<Rightarrow> birthdays_dict \<Rightarrow> error + birthdays_dict" where
  "scan_records today [] bd = Inr bd"
| "scan_records today (r # rs) bd =
     (case birthday r of
        None \<Rightarrow> scan_records today rs bd
      | Some b \<Rightarrow>
          (case birthday_this_year today b of
             Inl e \<Rightarrow> Inl e
           | Inr bty \<Rightarrow>
               (case congratulation bty of
                  Inl e \<Rightarrow> Inl e
                | Inr c \<Rightarrow>
                    if days_between c today \<le> 7
                    then scan_records today rs (note_birthday c (name r) bd)
                    else scan_records today rs bd)))"

text \<open>The loops of lines 105-110.\<close>

definition entries_of :: "date \<Rightarrow> birthdays_dict \<Rightarrow> entry list" where
  "entries_of today bd =
     concat (map (\<lambda>(k, (cd, users)).
       map (\<lambda>nm. \<lparr>entry_name = nm, congratulation_date = cd,
                  days_until_birthday = days_between cd today\<rparr>) users) bd)"

text \<open>\<^verbatim>\<open>get_upcoming_birthdays\<close>, with the date that line 73 reads from the clock as \<open>today\<close>.\<close>

definition get_upcoming_birthdays :: "date \<Rightarrow> AddressBook \<Rightarrow> error + entry list" where
  "get_upcoming_birthdays today book =
     (case scan_records today (map snd book) [] of
        Inl e \<Rightarrow> Inl e
      | Inr bd \<Rightarrow> Inr (entries_of today bd))"

subsection \<open>Calling a handler\<close>

text \<open>
  The interpreter binds the arguments to the parameters of a function before its body
  runs, and raises \<^verbatim>\<open>TypeError\<close> when there are too few or too many. The decorated
  handler makes the call inside its \<^verbatim>\<open>try\<close>, so this error reaches the clauses of
  \<^verbatim>\<open>input_error\<close> too. \<open>call_error f params args\<close> is the error for the function \<open>f\<close>
  whose parameters after \<^verbatim>\<open>address_book\<close> are \<open>params\<close>, called with the arguments
  \<open>args\<close> after the book.
\<close>

definition quoted :: "string \<Rightarrow> pystr" where
  "quoted p = [39] @ lit p @ [39]"

definition name_list :: "string list \<Rightarrow> pystr" where
  "name_list ps =
     (if length ps \<le> 1 then join [] (map quoted ps)
      else if length ps = 2 then join (lit '' and '') (map quoted ps)
      else join (lit '', '') (map quoted (butlast ps)) @ lit '', and '' @ quoted (last ps))"

definition missing_msg :: "string \<Rightarrow> string list \<Rightarrow> pystr" where
  "missing_msg f missing =
     lit f @ lit ''() missing '' @ str_nat (length missing)
       @ lit '' required positional argument'' @ (if length missing = 1 then [] else lit ''s'')
       @ lit '': '' @ name_list missing"

definition too_many_msg :: "string \<Rightarrow> nat \<Rightarrow> nat \<Rightarrow> pystr" where
  "too_many_msg f takes given =
     lit f @ lit ''() takes '' @ str_nat takes
       @ lit '' positional argument'' @ (if takes = 1 then [] else lit ''s'')
       @ lit '' but '' @ str_nat given @ (if given = 1 then lit '' was given'' else lit '' were given'')"

definition call_error :: "string \<Rightarrow> string list \<Rightarrow> pystr list \<Rightarrow> error" where
  "call_error f params args =
     TypeError (if length args < length params
                then missing_msg f (drop (length args) params)
                else too_many_msg f (length params + 1) (length args + 1))"

subsection \<open>The decorator\<close>

definition error_str :: "error \<Rightarrow> pystr" where
  "error_str e =
     (case e of
        ValueError m \<Rightarrow> m
      | KeyError \<Rightarrow> []
      | IndexError \<Rightarrow> []
      | TypeError m \<Rightarrow> m
      | OverflowError m \<Rightarrow> m)"

text \<open>
  \<^verbatim>\<open>input_error\<close> (lines 115-127) applied to the outcome of the wrapped call: what the
  call returned or raised, and the state it left.
\<close>

definition input_error :: "(error + pystr) \<times> 's \<Rightarrow> pystr \<times> 's" where
  "input_error out =
     (case fst out of
        Inr s \<Rightarrow> (s, snd out)
      | Inl KeyError \<Rightarrow> (lit ''Contact not found.'', snd out)
      | Inl (ValueError m) \<Rightarrow> (m, snd out)
      | Inl IndexError \<Rightarrow> (lit ''Missing required arguments.'', snd out)
      | Inl e \<Rightarrow> (lit ''An unexpected error occurred: '' @ error_str e, snd out))"

subsection \<open>The handlers\<close>

text \<open>
  Each handler is given as the function of the source (\<open>_body\<close>) and as the decorated
  function that the module exports under the name. The arguments after the book are a
  list, as the command loop passes them with \<^verbatim>\<open>*args\<close>.
\<close>

text \<open>The loop of lines 144-145; it stops at the first phone that fails.\<close>

fun add_phones :: "Record \<Rightarrow> pystr list \<Rightarrow> (error + unit) \<times> Record" where
  "add_phones r [] = (Inr (), r)"
| "add_phones r (p # ps) =
     (case add_phone r p of
        (Inl e, r') \<Rightarrow> (Inl e, r')
      | (Inr _, r') \<Rightarrow> add_phones r' ps)"

definition returning :: "pystr \<Rightarrow> error + unit \<Rightarrow> error + pystr" where
  "returning message out = (case out of Inl e \<Rightarrow> Inl e | Inr _ \<Rightarrow> Inr message)"

definition add_contact_body :: "AddressBook \<Rightarrow> pystr list \<Rightarrow> (error + pystr) \<times> AddressBook" where
  "add_contact_body book args =
     (case args of
        [] \<Rightarrow> (Inl (call_error ''add_contact'' [''name''] args), book)
      | nm # phs \<Rightarrow>
          (case find_record book nm of
             None \<Rightarrow>
               (let book' = add_record book (new_Record nm);
                    (out, r') = add_phones (new_Record nm) phs
                in (returning (lit ''Contact added.'') out, store book' nm r'))
           | Some r \<Rightarrow>
               (let (out, r') = add_phones r phs
                in (returning (lit ''Contact updated.'') out, store book nm r'))))"

definition add_contact :: "AddressBook \<Rightarrow> pystr list \<Rightarrow> pystr \<times> AddressBook" where
  "add_contact book args = input_error (add_contact_body book args)"

definition change_contact_body :: "AddressBook \<Rightarrow> pystr list \<Rightarrow> (error + pystr) \<times> AddressBook" where
  "change_contact_body book args =
     (case args of
        [nm, old_phone, new_phone] \<Rightarrow>
          (case find_record book nm of
             Some r \<Rightarrow>
               (let (out, r') = edit_phone r old_phone new_phone
                in (returning (lit ''Contact updated.'') out, store book nm r'))
           | None \<Rightarrow> (Inl KeyError, book))
      | _ \<Rightarrow> (Inl (call_error ''change_contact'' [''name'', ''old_phone'', ''new_phone''] args), book))"

definition change_contact :: "AddressBook \<Rightarrow> pystr list \<Rightarrow> pystr \<times> AddressBook" where
  "change_contact book args = input_error (change_contact_body book args)"

definition show_phone_body ::
  "year_style \<Rightarrow> AddressBook \<Rightarrow> pystr list \<Rightarrow> (error + pystr) \<times> AddressBook" where
  "show_phone_body ys book args =
     (case args of
        [nm] \<Rightarrow>
          (case find_record book nm of
             Some r \<Rightarrow> (Inr (Record_str ys r), book)
           | None \<Rightarrow> (Inl KeyError, book))
      | _ \<Rightarrow> (Inl (call_error ''show_phone'' [''name''] args), book))"

definition show_phone :: "year_style \<Rightarrow> AddressBook \<Rightarrow> pystr list \<Rightarrow> pystr \<times> AddressBook" where
  "show_phone ys book args = input_error (show_phone_body ys book args)"

definition show_all_body ::
  "year_style \<Rightarrow> AddressBook \<Rightarrow> pystr list \<Rightarrow> (error + pystr) \<times> AddressBook" where
  "show_all_body ys book args =
     (case args of
        [] \<Rightarrow>
          (if book \<noteq> [] then (Inr (join [10] (map (\<lambda>(k, r). Record_str ys r) book)), book)
           else (Inr (lit ''No contacts found.''), book))
      | _ \<Rightarrow> (Inl (call_error ''show_all'' [] args), book))"

definition show_all :: "year_style \<Rightarrow> AddressBook \<Rightarrow> pystr list \<Rightarrow> pystr \<times> AddressBook" where
  "show_all ys book args = input_error (show_all_body ys book args)"

definition add_birthday_body :: "AddressBook \<Rightarrow> pystr list \<Rightarrow> (error + pystr) \<times> AddressBook" where
  "add_birthday_body book args =
     (case args of
        [nm, b] \<Rightarrow>
          (case find_record book nm of
             Some r \<Rightarrow>
               (let (out, r') = Record_add_birthday r b
                in (returning (lit ''Birthday added.'') out, store book nm r'))
           | None \<Rightarrow> (Inl KeyError, book))
      | _ \<Rightarrow> (Inl (call_error ''add_birthday'' [''name'', ''birthday''] args), book))"

definition add_birthday :: "AddressBook \<Rightarrow> pystr list \<Rightarrow> pystr \<times> AddressBook" where
  "add_birthday book args = input_error (add_birthday_body book args)"

definition show_birthday_body ::
  "year_style \<Rightarrow> AddressBook \<Rightarrow> pystr list \<Rightarrow> (error + pystr) \<times> AddressBook" where
  "show_birthday_body ys book args =
     (case args of
        [nm] \<Rightarrow>
          (case find_record book nm of
             Some r \<Rightarrow>
               (case birthday r of
                  Some b \<Rightarrow> (Inr (nm @ [39] @ lit ''s birthday is '' @ Birthday_str ys b), book)
                | None \<Rightarrow> (Inl KeyError, book))
           | None \<Rightarrow> (Inl KeyError, book))
      | _ \<Rightarrow> (Inl (call_error ''show_birthday'' [''name''] args), book))"

definition show_birthday :: "year_style \<Rightarrow> AddressBook \<Rightarrow> pystr list \<Rightarrow> pystr \<times> AddressBook" where
  "show_birthday ys book args = input_error (show_birthday_body ys book args)"

definition birthdays_body ::
  "year_style \<Rightarrow> date \<Rightarrow> AddressBook \<Rightarrow> pystr list \<Rightarrow> (error + pystr) \<times> AddressBook" where
  "birthdays_body ys today book args =
     (case args of
        [] \<Rightarrow>
          (case get_upcoming_birthdays today book of
             Inl e \<Rightarrow> (Inl e, book)
           | Inr upcoming \<Rightarrow>
               (if upcoming \<noteq> []
                then (Inr (join [10] (map (\<lambda>e. entry_name e @ lit '': ''
                              @ strftime ys (congratulation_date e)) upcoming)), book)
                else (Inr (lit ''No upcoming birthdays.''), book)))
      | _ \<Rightarrow> (Inl (call_error ''birthdays'' [] args), book))"

definition birthdays ::
  "year_style \<Rightarrow> date \<Rightarrow> AddressBook \<Rightarrow> pystr list \<Rightarrow> pystr \<times> AddressBook" where
  "birthdays ys today book args = input_error (birthdays_body ys today book args)"

subsection \<open>What the scan collects\<close>

text \<open>
  The upcoming-birthdays query described record by record, for the statements below:
  the observed date of one birthday (the projection of lines 80-84 followed by the
  shift of lines 86-93), the pair of observed date and name that one record
  contributes when that date is at most seven days ahead, the keys of a sequence in
  the order in which they first occur, and the entries of a sequence of pairs put in
  groups by date, the groups in the order in which their dates first occur.
\<close>

definition observed_date :: "date \<Rightarrow> date \<Rightarrow> error + date" where
  "observed_date today b =
     (case birthday_this_year today b of Inl e \<Rightarrow> Inl e | Inr bty \<Rightarrow> congratulation bty)"

definition upcoming_of :: "date \<Rightarrow> Record \<Rightarrow> (date \<times> pystr) list" where
  "upcoming_of today r =
     (case birthday r of
        None \<Rightarrow> []
      | Some b \<Rightarrow>
          (case observed_date today b of
             Inl e \<Rightarrow> []
           | Inr c \<Rightarrow> if days_between c today \<le> 7 then [(c, name r)] else []))"

definition first_seen :: "'a list \<Rightarrow> 'a list" where
  "first_seen xs = rev (remdups (rev xs))"

definition grouped :: "(date \<times> pystr) list \<Rightarrow> birthdays_dict" where
  "grouped qs =
     map (\<lambda>c. (c, (c, map snd (filter (\<lambda>q. fst q = c) qs)))) (first_seen (map fst qs))"

definition in_groups :: "date \<Rightarrow> (date \<times> pystr) list \<Rightarrow> entry list" where
  "in_groups today qs =
     concat (map (\<lambda>c. map (\<lambda>q. \<lparr>entry_name = snd q, congratulation_date = c,
                                   days_until_birthday = days_between c today\<rparr>)
                          (filter (\<lambda>q. fst q = c) qs))
                 (first_seen (map fst qs)))"

section \<open>Properties\<close>

subsection \<open>Literals\<close>

lemma lit_Nil: "lit [] = []"
  by (simp add: lit_def)

lemma lit_Cons: "lit (c # cs) = of_char c # lit cs"
  by (simp add: lit_def)

subsection \<open>Calendar arithmetic\<close>

text \<open>
  The ordinal of a date grows by the length of each year and of each month, so the
  order on dates agrees with the order of their ordinals, and stepping to the next day
  adds one to the ordinal.
\<close>

lemma div_pred:
  fixes y k :: int
  assumes "0 < k"
  shows "y div k = (y - 1) div k + (if y mod k = 0 then 1 else 0)"
proof (cases "y mod k = 0")
  case True
  have "y - 1 = k * (y div k - 1) + (k - 1)"
    using True mult_div_mod_eq [of k y] by (simp add: algebra_simps)
  then have "(y - 1) div k = y div k - 1"
    by (rule int_div_pos_eq [where r = "k - 1"]) (use assms in auto)
  with True show ?thesis by simp
next
  case False
  have "0 \<le> y mod k" "y mod k < k" using assms by auto
  with False have r: "0 \<le> y mod k - 1" "y mod k - 1 < k" by auto
  have "y - 1 = k * (y div k) + (y mod k - 1)"
    by (simp add: algebra_simps)
  then have "(y - 1) div k = y div k"
    by (rule int_div_pos_eq [where r = "y mod k - 1"]) (use r in auto)
  with False show ?thesis by simp
qed

lemma mod_100_imp_4: "(y::int) mod 100 = 0 \<Longrightarrow> y mod 4 = 0"
proof -
  have "(4::int) dvd 100" by simp
  then show "y mod 100 = 0 \<Longrightarrow> y mod 4 = 0"
    using mod_mod_cancel [of 4 100 y] by simp
qed

lemma mod_400_imp_100: "(y::int) mod 400 = 0 \<Longrightarrow> y mod 100 = 0"
proof -
  have "(100::int) dvd 400" by simp
  then show "y mod 400 = 0 \<Longrightarrow> y mod 100 = 0"
    using mod_mod_cancel [of 100 400 y] by simp
qed

lemma days_before_year_Suc:
  "days_before_year (y + 1) = days_before_year y + (if is_leap y then 366 else 365)"
proof -
  define a where "a = (if y mod 4 = 0 then 1 else 0::int)"
  define b where "b = (if y mod 100 = 0 then 1 else 0::int)"
  define c where "c = (if y mod 400 = 0 then 1 else 0::int)"
  define p where "p = (y - 1) div 4"
  define q where "q = (y - 1) div 100"
  define r where "r = (y - 1) div 400"
  have d4: "y div 4 = p + a" unfolding p_def a_def by (rule div_pred) simp
  have d100: "y div 100 = q + b" unfolding q_def b_def by (rule div_pred) simp
  have d400: "y div 400 = r + c" unfolding r_def c_def by (rule div_pred) simp
  have "days_before_year (y + 1) = y * 365 + (p + a) - (q + b) + (r + c)"
    unfolding days_before_year_def by (simp only: add_diff_cancel_right' d4 d100 d400)
  moreover have "days_before_year y = (y - 1) * 365 + p - q + r"
    unfolding days_before_year_def p_def q_def r_def ..
  moreover have "a - b + c = (if is_leap y then 1 else 0)"
    using mod_100_imp_4 [of y] mod_400_imp_100 [of y]
    unfolding a_def b_def c_def is_leap_def
    by (cases "y mod 4 = 0"; cases "y mod 100 = 0"; cases "y mod 400 = 0"; simp)
  ultimately show ?thesis by (simp add: algebra_simps split: if_splits)
qed

lemma days_before_year_mono:
  assumes "y \<le> y'"
  shows "days_before_year y \<le> days_before_year y'"
  using assms
proof (induction y' rule: int_ge_induct)
  case base
  show ?case by simp
next
  case (step i)
  have "days_before_year i \<le> days_before_year (i + 1)"
    by (simp add: days_before_year_Suc)
  with step show ?case by linarith
qed

lemma month_cases:
  "1 \<le> m \<Longrightarrow> m \<le> 12 \<Longrightarrow>
   m = 1 \<or> m = 2 \<or> m = 3 \<or> m = 4 \<or> m = 5 \<or> m = 6 \<or> m = 7 \<or> m = 8 \<or> m = 9 \<or> m = 10
     \<or> m = 11 \<or> m = (12::int)"
  by arith

lemma days_before_month_Suc:
  "1 \<le> m \<Longrightarrow> m < 12 \<Longrightarrow>
   days_before_month y (m + 1) = days_before_month y m + days_in_month y m"
  using month_cases [of m]
  by (auto simp: days_before_month_def days_in_month_def)

lemma days_before_month_last:
  "days_before_month y 12 + days_in_month y 12 = (if is_leap y then 366 else 365)"
  by (simp add: days_before_month_def days_in_month_def)

lemma days_in_month_bounds:
  "1 \<le> m \<Longrightarrow> m \<le> 12 \<Longrightarrow> 28 \<le> days_in_month y m \<and> days_in_month y m \<le> 31"
  using month_cases [of m] by (auto simp: days_in_month_def)

lemma days_before_month_mono:
  assumes "m \<le> m'" "1 \<le> m" "m' \<le> 12"
  shows "days_before_month y m \<le> days_before_month y m'"
  using assms
proof (induction m' rule: int_ge_induct)
  case base
  show ?case by simp
next
  case (step i)
  then show ?case
    using days_before_month_Suc [of i y] days_in_month_bounds [of i y] by simp
qed

lemma end_of_month_le:
  assumes "1 \<le> m" "m < m'" "m' \<le> 12"
  shows "days_before_month y m + days_in_month y m \<le> days_before_month y m'"
proof -
  have "days_before_month y m + days_in_month y m = days_before_month y (m + 1)"
    using assms by (simp add: days_before_month_Suc)
  also have "\<dots> \<le> days_before_month y m'"
    using assms by (intro days_before_month_mono) auto
  finally show ?thesis .
qed

lemma end_of_month_le_year:
  assumes "1 \<le> m" "m \<le> 12"
  shows "days_before_month y m + days_in_month y m \<le> (if is_leap y then 366 else 365)"
proof (cases "m = 12")
  case True
  then show ?thesis using days_before_month_last [of y] by simp
next
  case False
  then have "days_before_month y m + days_in_month y m \<le> days_before_month y 12"
    using assms by (intro end_of_month_le) auto
  then show ?thesis
    using days_before_month_last [of y] days_in_month_bounds [of 12 y] by (simp split: if_splits)
qed

lemma toordinal_less:
  assumes "valid_date a" "valid_date b" "date_less a b"
  shows "toordinal a < toordinal b"
proof -
  consider (y) "year a < year b"
    | (m) "year a = year b" "month a < month b"
    | (d) "year a = year b" "month a = month b" "day a < day b"
    using assms(3) by (auto simp: date_less_def)
  then show ?thesis
  proof cases
    case y
    have "toordinal a \<le> days_before_year (year a) + (if is_leap (year a) then 366 else 365)"
      using assms(1) end_of_month_le_year [of "month a" "year a"]
      by (simp add: toordinal_def valid_date_def)
    also have "\<dots> = days_before_year (year a + 1)"
      by (simp add: days_before_year_Suc)
    also have "\<dots> \<le> days_before_year (year b)"
      using y by (intro days_before_year_mono) simp
    also have "\<dots> < toordinal b"
      using assms(2) days_before_month_mono [of 1 "month b" "year b"]
      by (simp add: toordinal_def valid_date_def days_before_month_def)
    finally show ?thesis .
  next
    case m
    then show ?thesis
      using assms(1,2) end_of_month_le [of "month a" "month b" "year b"]
      by (simp add: toordinal_def valid_date_def)
  next
    case d
    then show ?thesis by (simp add: toordinal_def)
  qed
qed

lemma toordinal_le:
  assumes "valid_date a" "valid_date b" "\<not> date_less b a"
  shows "toordinal a \<le> toordinal b"
proof (cases "date_less a b")
  case True
  then show ?thesis using toordinal_less [OF assms(1,2)] by simp
next
  case False
  with assms(3) have "year a = year b \<and> month a = month b \<and> day a = day b"
    by (auto simp: date_less_def)
  then show ?thesis by (simp add: toordinal_def)
qed

lemma new_date_Inr:
  "new_date y m d = Inr x \<Longrightarrow> valid_date x \<and> year x = y \<and> month x = m \<and> day x = d"
  by (auto simp: new_date_def valid_date_def split: if_splits)

lemma new_date_valid:
  "valid_date \<lparr>year = y, month = m, day = d\<rparr> \<Longrightarrow> new_date y m d = Inr \<lparr>year = y, month = m, day = d\<rparr>"
  by (auto simp: new_date_def valid_date_def)

lemma next_day_valid:
  assumes "valid_date d" "\<not> (year d = 9999 \<and> month d = 12 \<and> day d = 31)"
  shows "valid_date (next_day d)"
  using assms days_in_month_bounds [of "month d + 1" "year d"] days_in_month_bounds [of 1 "year d + 1"]
  by (auto simp: next_day_def valid_date_def days_in_month_def)

lemma toordinal_next_day:
  assumes "valid_date d"
  shows "toordinal (next_day d) = toordinal d + 1"
proof -
  consider (d) "day d < days_in_month (year d) (month d)"
    | (m) "day d = days_in_month (year d) (month d)" "month d < 12"
    | (y) "day d = days_in_month (year d) (month d)" "month d = 12"
    using assms by (fastforce simp: valid_date_def)
  then show ?thesis
  proof cases
    case d
    then show ?thesis by (simp add: next_day_def toordinal_def)
  next
    case m
    then show ?thesis
      using assms days_before_month_Suc [of "month d" "year d"]
      by (simp add: next_day_def toordinal_def valid_date_def)
  next
    case y
    then show ?thesis
      using days_before_month_last [of "year d"] days_before_year_Suc [of "year d"]
      by (simp add: next_day_def toordinal_def days_before_month_def split: if_splits)
  qed
qed

lemma add_days_Inr:
  "valid_date d \<Longrightarrow> add_days d n = Inr d' \<Longrightarrow>
   valid_date d' \<and> toordinal d' = toordinal d + int n"
proof (induction n arbitrary: d)
  case 0
  then show ?case by simp
next
  case (Suc n)
  from Suc.prems have ne: "\<not> (year d = 9999 \<and> month d = 12 \<and> day d = 31)"
    and rec: "add_days (next_day d) n = Inr d'"
    by (auto split: if_splits)
  have "valid_date (next_day d)" using Suc.prems(1) ne by (rule next_day_valid)
  from Suc.IH [OF this rec] show ?case
    using toordinal_next_day [OF Suc.prems(1)] by simp
qed

subsection \<open>Reading ASCII digits\<close>

lemma decimal_value_ascii:
  "48 \<le> c \<Longrightarrow> c \<le> 57 \<Longrightarrow> decimal_value c = Some (c - 48)"
  by (simp add: decimal_value_def decimal_zeros_def)

lemma re_d_ascii: "48 \<le> c \<Longrightarrow> c \<le> 57 \<Longrightarrow> re_d (c # r) = [(c - 48, r)]"
  by (simp add: re_d_def decimal_value_ascii)

lemma Birthday_feb29:
  "Birthday (lit ''2000.02.29'') = Inr \<lparr>year = 2000, month = 2, day = 29\<rparr>"
  by (simp add: Birthday_def strptime_def re_format_def re_Y_def re_m_def re_dd_def
      re_d_ascii re_range_def re_char_def lit_Nil lit_Cons new_date_def days_in_month_def is_leap_def)

subsection \<open>A birthday on 29 February\<close>

text \<open>
  Claim C4. The claim asks that \<^verbatim>\<open>get_upcoming_birthdays\<close> be total, a birthday on
  29 February projected onto a year that is not a leap year being clamped or skipped.
  The source projects with \<^verbatim>\<open>birthday.replace(year=today.year)\<close> and nothing around it:
  for the birthday that \<^verbatim>\<open>Birthday("2000.02.29")\<close> stores and the first of March 2023 as
  today, the call raises the \<^verbatim>\<open>ValueError\<close> of the date constructor.
\<close>

theorem feb29_projection_raises:
  "Birthday (lit ''2000.02.29'') = Inr \<lparr>year = 2000, month = 2, day = 29\<rparr>
   \<and> get_upcoming_birthdays \<lparr>year = 2023, month = 3, day = 1\<rparr>
        [(lit ''A'', \<lparr>name = lit ''A'', phones = [],
                     birthday = Some \<lparr>year = 2000, month = 2, day = 29\<rparr>\<rparr>)]
       = Inl (ValueError (lit ''day is out of range for month''))"
  by (simp add: Birthday_feb29 get_upcoming_birthdays_def birthday_this_year_def replace_year_def
      new_date_def days_in_month_def is_leap_def)

subsection \<open>Editing a phone\<close>

text \<open>
  Claim C6. When the new phone fails validation, \<open>edit_phone\<close> raises the phone error
  and leaves the record with every phone equal to the old one removed and nothing
  added; the name and the birthday are untouched.
\<close>

theorem edit_phone_invalid_new:
  assumes "validate new_phone \<noteq> Inr ()"
  shows "fst (edit_phone r old_phone new_phone) = Inl (ValueError phone_msg)
     \<and> phones (snd (edit_phone r old_phone new_phone)) = filter (\<lambda>p. p \<noteq> old_phone) (phones r)
     \<and> old_phone \<notin> set (phones (snd (edit_phone r old_phone new_phone)))
     \<and> name (snd (edit_phone r old_phone new_phone)) = name r
     \<and> birthday (snd (edit_phone r old_phone new_phone)) = birthday r"
  using assms
  by (auto simp: edit_phone_def add_phone_def remove_phone_def validate_def split: if_splits)

theorem edit_phone_invalid_new_witness:
  "validate (lit ''12ab'') \<noteq> Inr ()
   \<and> edit_phone \<lparr>name = lit ''Bob'', phones = [lit ''0000000000'', lit ''5555555555''], birthday = None\<rparr>
        (lit ''0000000000'') (lit ''12ab'')
     = (Inl (ValueError phone_msg),
        \<lparr>name = lit ''Bob'', phones = [lit ''5555555555''], birthday = None\<rparr>)"
proof -
  have v: "validate (lit ''12ab'') \<noteq> Inr ()"
    by (simp add: validate_def lit_def)
  show ?thesis
    using v edit_phone_invalid_new [OF v,
      of "\<lparr>name = lit ''Bob'', phones = [lit ''0000000000'', lit ''5555555555''], birthday = None\<rparr>"
         "lit ''0000000000''"]
    by (simp add: edit_phone_def add_phone_def remove_phone_def lit_def split: sum.splits)
qed

subsection \<open>Missing arguments\<close>

text \<open>
  Claim C9. The claim has every handler turn too few positional arguments into
  \<^verbatim>\<open>"Missing required arguments."\<close>. A missing positional argument is a \<^verbatim>\<open>TypeError\<close> of
  the call, which the \<^verbatim>\<open>IndexError\<close> clause of \<^verbatim>\<open>input_error\<close> does not catch: for
  \<^verbatim>\<open>show_phone\<close> called with the book alone the last clause answers, for every book.
\<close>

theorem show_phone_without_name:
  "show_phone ys book [] =
     (lit ''An unexpected error occurred: show_phone() missing 1 required positional argument: ''
        @ quoted ''name'', book)
   \<and> fst (show_phone ys book []) \<noteq> lit ''Missing required arguments.''"
  by (simp add: show_phone_def show_phone_body_def input_error_def call_error_def
      missing_msg_def name_list_def error_str_def str_nat.simps lit_Nil lit_Cons)

subsection \<open>Showing a birthday that is not set\<close>

text \<open>
  Claim C10. For a contact that exists and has no birthday, \<open>show_birthday\<close> answers
  \<^verbatim>\<open>"Contact not found."\<close> and leaves the book as it is: the answer it gives for the same
  name once the contact is deleted.
\<close>

theorem show_birthday_without_birthday:
  assumes "find_record book nm = Some r" "birthday r = None"
  shows "show_birthday ys book [nm] = (lit ''Contact not found.'', book)
     \<and> show_birthday ys (delete_record book nm) [nm] = (lit ''Contact not found.'', delete_record book nm)"
proof -
  have "nm \<in> fst ` set book"
    using assms(1) by (auto simp: find_record_def dest: map_of_SomeD intro: rev_image_eqI)
  then have "find_record (delete_record book nm) nm = None"
    by (simp add: find_record_def delete_record_def AList.delete_conv')
  then show ?thesis
    using assms by (simp add: show_birthday_def show_birthday_body_def input_error_def)
qed

theorem show_birthday_without_birthday_witness:
  "show_birthday Unpadded [(lit ''Bob'', new_Record (lit ''Bob''))] [lit ''Bob'']
     = (lit ''Contact not found.'', [(lit ''Bob'', new_Record (lit ''Bob''))])
   \<and> show_birthday Unpadded (delete_record [(lit ''Bob'', new_Record (lit ''Bob''))] (lit ''Bob'')) [lit ''Bob'']
     = (lit ''Contact not found.'', delete_record [(lit ''Bob'', new_Record (lit ''Bob''))] (lit ''Bob''))"
  using show_birthday_without_birthday
    [of "[(lit ''Bob'', new_Record (lit ''Bob''))]" "lit ''Bob''" "new_Record (lit ''Bob'')" Unpadded]
  by (simp add: find_record_def new_Record_def)

subsection \<open>Validating a phone\<close>

lemma isdigit_char_ascii: "c < 128 \<Longrightarrow> isdigit_char c = ascii_digit c"
  by (auto simp: isdigit_char_def isdecimal_char_def decimal_value_def decimal_zeros_def
      other_digit_ranges_def ascii_digit_def)

lemma validate_ascii_digits:
  "length s = 10 \<Longrightarrow> list_all ascii_digit s \<Longrightarrow> validate s = Inr ()"
proof -
  assume len: "length s = 10" and dig: "list_all ascii_digit s"
  have "list_all isdigit_char s"
    using dig by (auto simp: list_all_iff ascii_digit_def isdigit_char_ascii)
  moreover have "s \<noteq> []" using len by auto
  ultimately show ?thesis using len by (simp add: validate_def isdigit_def)
qed

text \<open>
  Claim C5, as the code has it. \<open>validate\<close> succeeds exactly on the strings of ten
  characters that \<^verbatim>\<open>str.isdigit\<close> accepts, and raises the phone error on every other
  string. Among the strings of ASCII characters these are the strings of ten of the
  digits \<^verbatim>\<open>0\<close> to \<^verbatim>\<open>9\<close>.
\<close>

theorem validate_succeeds_iff:
  "(validate s = Inr () \<longleftrightarrow> length s = 10 \<and> (\<forall>c\<in>set s. isdigit_char c))
   \<and> (validate s \<noteq> Inr () \<longrightarrow> validate s = Inl (ValueError phone_msg))
   \<and> ((\<forall>c\<in>set s. c < 128) \<longrightarrow>
        (validate s = Inr () \<longleftrightarrow> length s = 10 \<and> (\<forall>c\<in>set s. ascii_digit c)))"
proof -
  have ne: "length s = 10 \<Longrightarrow> s \<noteq> []" by auto
  have a: "validate s = Inr () \<longleftrightarrow> length s = 10 \<and> (\<forall>c\<in>set s. isdigit_char c)"
    using ne by (auto simp: validate_def isdigit_def list_all_iff)
  have b: "validate s \<noteq> Inr () \<longrightarrow> validate s = Inl (ValueError phone_msg)"
    by (simp add: validate_def)
  have c: "(\<forall>c\<in>set s. c < 128) \<longrightarrow>
        (validate s = Inr () \<longleftrightarrow> length s = 10 \<and> (\<forall>c\<in>set s. ascii_digit c))"
    unfolding a by (auto simp: isdigit_char_ascii)
  from a b c show ?thesis by blast
qed

theorem validate_succeeds_iff_witness:
  "list_all (\<lambda>c. c < 128) (lit ''0123456789'') \<and> validate (lit ''0123456789'') = Inr ()
   \<and> list_all (\<lambda>c. c < 128) (lit ''12345678x9'')
   \<and> validate (lit ''12345678x9'') = Inl (ValueError phone_msg)"
proof -
  note good = validate_succeeds_iff [of "lit ''0123456789''"]
  note bad = validate_succeeds_iff [of "lit ''12345678x9''"]
  have 1: "validate (lit ''0123456789'') = Inr ()"
    using good [THEN conjunct2, THEN conjunct2] by (simp add: lit_def ascii_digit_def)
  have "validate (lit ''12345678x9'') \<noteq> Inr ()"
    using bad [THEN conjunct2, THEN conjunct2] by (simp add: lit_def ascii_digit_def)
  then have 2: "validate (lit ''12345678x9'') = Inl (ValueError phone_msg)"
    using bad [THEN conjunct2, THEN conjunct1] by simp
  show ?thesis using 1 2 by (simp add: lit_def)
qed

text \<open>
  Claim C5, as stated, fails: \<^verbatim>\<open>str.isdigit\<close> is true of the superscript two (U+00B2),
  which is a digit of Unicode and not a decimal digit, so a string of ten of them
  passes the validation.
\<close>

theorem validate_superscript_two:
  "length [178, 178, 178, 178, 178, 178, 178, 178, 178, 178 :: nat] = 10
   \<and> validate [178, 178, 178, 178, 178, 178, 178, 178, 178, 178] = Inr ()
   \<and> \<not> isdecimal_char 178 \<and> \<not> ascii_digit 178"
  by (simp add: validate_def isdigit_def isdigit_char_def isdecimal_char_def decimal_value_def
      decimal_zeros_def other_digit_ranges_def ascii_digit_def)

subsection \<open>Adding a contact\<close>

lemma update_absent: "k \<notin> fst ` set al \<Longrightarrow> AList.update k v al = al @ [(k, v)]"
  by (induction al) auto

lemma store_last: "k \<notin> fst ` set book \<Longrightarrow> store (book @ [(k, r)]) k r' = book @ [(k, r')]"
  unfolding store_def by (induction book) auto

lemma store_absent: "k \<notin> fst ` set book \<Longrightarrow> store book k r = book"
  unfolding store_def by (induction book) auto

lemma add_record_new:
  "find_record book (name r) = None \<Longrightarrow> add_record book r = book @ [(name r, r)]"
  by (simp add: add_record_def find_record_def map_of_eq_None_iff update_absent)

lemma find_record_None: "find_record book nm = None \<longleftrightarrow> nm \<notin> fst ` set book"
  by (simp add: find_record_def map_of_eq_None_iff)

lemma find_record_last:
  "nm \<notin> fst ` set book \<Longrightarrow> find_record (book @ [(nm, r)]) nm = Some r"
  by (simp add: find_record_def map_of_eq_None_iff [symmetric] map_add_def)

lemma add_phones_valid:
  "\<forall>p\<in>set phs. validate p = Inr () \<Longrightarrow>
   add_phones r phs = (Inr (), r\<lparr>phones := phones r @ phs\<rparr>)"
  by (induction phs arbitrary: r) (simp_all add: add_phone_def)

text \<open>
  Claim C7. With phones that pass the validation, \<open>add_contact\<close> on a name that the
  book does not hold answers \<^verbatim>\<open>"Contact added."\<close> and puts one new record last in the
  book; called again with the same name it answers \<^verbatim>\<open>"Contact updated."\<close> and appends the
  phones to that record. The book has one entry more than at the start and still no
  name twice.
\<close>

theorem add_contact_added_then_updated:
  assumes "distinct (map fst book)"
    and "find_record book nm = None"
    and "\<forall>p\<in>set phs. validate p = Inr ()"
    and "\<forall>p\<in>set phs'. validate p = Inr ()"
  shows "add_contact book (nm # phs)
           = (lit ''Contact added.'', book @ [(nm, \<lparr>name = nm, phones = phs, birthday = None\<rparr>)])
     \<and> add_contact (book @ [(nm, \<lparr>name = nm, phones = phs, birthday = None\<rparr>)]) (nm # phs')
           = (lit ''Contact updated.'',
              book @ [(nm, \<lparr>name = nm, phones = phs @ phs', birthday = None\<rparr>)])
     \<and> distinct (map fst (book @ [(nm, \<lparr>name = nm, phones = phs @ phs', birthday = None\<rparr>)]))
     \<and> length (book @ [(nm, \<lparr>name = nm, phones = phs @ phs', birthday = None\<rparr>)])
           = Suc (length book)"
proof -
  have absent: "nm \<notin> fst ` set book"
    using assms(2) by (simp add: find_record_None)
  have first: "add_contact book (nm # phs)
      = (lit ''Contact added.'', book @ [(nm, \<lparr>name = nm, phones = phs, birthday = None\<rparr>)])"
  proof -
    have "add_record book (new_Record nm) = book @ [(nm, new_Record nm)]"
      using add_record_new [of book "new_Record nm"] assms(2) by (simp add: new_Record_def)
    then show ?thesis
      using assms(2) absent
      by (simp add: add_contact_def add_contact_body_def add_phones_valid [OF assms(3)]
          store_last new_Record_def returning_def input_error_def)
  qed
  have second: "add_contact (book @ [(nm, \<lparr>name = nm, phones = phs, birthday = None\<rparr>)]) (nm # phs')
      = (lit ''Contact updated.'',
         book @ [(nm, \<lparr>name = nm, phones = phs @ phs', birthday = None\<rparr>)])"
    using absent
    by (simp add: add_contact_def add_contact_body_def find_record_last
        add_phones_valid [OF assms(4)] store_last returning_def input_error_def)
  have "distinct (map fst (book @ [(nm, \<lparr>name = nm, phones = phs @ phs', birthday = None\<rparr>)]))"
    using assms(1) absent by simp
  with first second show ?thesis by simp
qed

theorem add_contact_added_then_updated_witness:
  "add_contact [] [lit ''Bob'', lit ''0123456789'']
     = (lit ''Contact added.'',
        [(lit ''Bob'', \<lparr>name = lit ''Bob'', phones = [lit ''0123456789''], birthday = None\<rparr>)])
   \<and> add_contact
        [(lit ''Bob'', \<lparr>name = lit ''Bob'', phones = [lit ''0123456789''], birthday = None\<rparr>)]
        [lit ''Bob'', lit ''1111111111'']
     = (lit ''Contact updated.'',
        [(lit ''Bob'', \<lparr>name = lit ''Bob'', phones = [lit ''0123456789'', lit ''1111111111''],
                       birthday = None\<rparr>)])"
proof -
  have v1: "\<forall>p\<in>set [lit ''0123456789'']. validate p = Inr ()"
    by (simp add: validate_ascii_digits lit_def ascii_digit_def)
  have v2: "\<forall>p\<in>set [lit ''1111111111'']. validate p = Inr ()"
    by (simp add: validate_ascii_digits lit_def ascii_digit_def)
  have d: "distinct (map fst ([] :: AddressBook))" by simp
  have f: "find_record [] (lit ''Bob'') = None" by (simp add: find_record_def)
  show ?thesis
    using add_contact_added_then_updated [OF d f v1 v2] by simp
qed

subsection \<open>Parsing and rendering a birthday\<close>

text \<open>
  A text of four, two and two ASCII digits with periods between them is read by the
  first alternative of each group that fits, and the digits of the three numbers are
  what the zero-padded rendering prints.
\<close>

lemma digit_step: "d < 10 \<Longrightarrow> (10 * n + d) div 10 = (n::nat) \<and> (10 * n + d) mod 10 = d"
  by simp

lemma four_digits:
  fixes a b c d :: nat
  assumes "a < 10" "b < 10" "c < 10" "d < 10"
  defines "n \<equiv> 1000 * a + 100 * b + 10 * c + d"
  shows "n mod 10 = d" "n div 10 mod 10 = c" "n div 100 mod 10 = b" "n div 1000 mod 10 = a"
    "n div 10 = 100 * a + 10 * b + c" "n div 10 div 10 = 10 * a + b" "n div 10 div 10 div 10 = a"
    "n div 10 div 10 mod 10 = b"
proof -
  have n: "n = 10 * (10 * (10 * a + b) + c) + d" by (simp add: n_def)
  have s1: "n div 10 = 10 * (10 * a + b) + c \<and> n mod 10 = d"
    unfolding n by (rule digit_step) (rule assms(4))
  then have 1: "n div 10 = 10 * (10 * a + b) + c" and m1: "n mod 10 = d" by blast+
  have s2: "n div 10 div 10 = 10 * a + b \<and> n div 10 mod 10 = c"
    unfolding 1 by (rule digit_step) (rule assms(3))
  then have 2: "n div 10 div 10 = 10 * a + b" and m2: "n div 10 mod 10 = c" by blast+
  have s3: "n div 10 div 10 div 10 = a \<and> n div 10 div 10 mod 10 = b"
    unfolding 2 by (rule digit_step) (rule assms(2))
  then have 3: "n div 10 div 10 div 10 = a" and m3: "n div 10 div 10 mod 10 = b" by blast+
  have h: "n div 100 = n div 10 div 10" "n div 1000 = n div 10 div 10 div 10"
    by (simp_all add: div_mult2_eq)
  show "n mod 10 = d" by (rule m1)
  show "n div 10 mod 10 = c" by (rule m2)
  show "n div 100 mod 10 = b" unfolding h by (rule m3)
  show "n div 1000 mod 10 = a" unfolding h 3 using assms(1) by simp
  show "n div 10 = 100 * a + 10 * b + c" unfolding 1 by simp
  show "n div 10 div 10 = 10 * a + b" by (rule 2)
  show "n div 10 div 10 div 10 = a" by (rule 3)
  show "n div 10 div 10 mod 10 = b" by (rule m3)
qed

lemma pad4_digits:
  assumes "a < 10" "b < 10" "c < 10" "d < 10"
  shows "pad4 (1000 * a + 100 * b + 10 * c + d) = [48 + a, 48 + b, 48 + c, 48 + d]"
  unfolding pad4_def by (simp only: four_digits(1-4) [OF assms])

lemma pad2_digits:
  assumes "a < 10" "b < 10"
  shows "pad2 (10 * a + b) = [48 + a, 48 + b]"
  using assms by (simp add: pad2_def)

lemma str_nat_step: "10 \<le> n \<Longrightarrow> str_nat n = str_nat (n div 10) @ [48 + n mod 10]"
  by (subst str_nat.simps) simp

lemma str_nat_digits:
  assumes "a < 10" "b < 10" "c < 10" "d < 10" "0 < a"
  shows "str_nat (1000 * a + 100 * b + 10 * c + d) = [48 + a, 48 + b, 48 + c, 48 + d]"
proof -
  define n where "n = 1000 * a + 100 * b + 10 * c + d"
  define n1 where "n1 = n div 10"
  define n2 where "n2 = n1 div 10"
  note f = four_digits [OF assms(1-4), folded n_def]
  have m: "n mod 10 = d" "n1 mod 10 = c" "n2 mod 10 = b" "n2 div 10 = a"
    using f(1,2,8,7) unfolding n1_def n2_def by simp_all
  have "n2 = 10 * a + b" using f(6) by (simp add: n1_def n2_def)
  then have g2: "10 \<le> n2" using assms(5) by simp
  then have g1: "10 \<le> n1" unfolding n2_def by simp
  then have g0: "10 \<le> n" unfolding n1_def by simp
  have "str_nat n = str_nat n1 @ [48 + d]"
    using str_nat_step [OF g0] by (simp only: m n1_def)
  also have "str_nat n1 = str_nat n2 @ [48 + c]"
    using str_nat_step [OF g1] by (simp only: m n2_def)
  also have "str_nat n2 = str_nat a @ [48 + b]"
    using str_nat_step [OF g2] by (simp only: m)
  also have "str_nat a = [48 + a]"
    using assms(1) by (subst str_nat.simps) simp
  finally show ?thesis unfolding n_def by simp
qed

lemma re_Y_ascii:
  assumes "ascii_digit y1" "ascii_digit y2" "ascii_digit y3" "ascii_digit y4"
  shows "re_Y (y1 # y2 # y3 # y4 # r)
    = [(1000 * (y1 - 48) + 100 * (y2 - 48) + 10 * (y3 - 48) + (y4 - 48), r)]"
  using assms by (simp add: re_Y_def re_d_ascii ascii_digit_def)

lemma re_m_two:
  assumes "ascii_digit m1" "ascii_digit m2"
    and "1 \<le> 10 * (m1 - 48) + (m2 - 48)" "10 * (m1 - 48) + (m2 - 48) \<le> 12"
  shows "\<exists>more. re_m (m1 # m2 # r) = (10 * (m1 - 48) + (m2 - 48), r) # more"
proof -
  consider "m1 = 48" "49 \<le> m2" "m2 \<le> 57" | "m1 = 49" "48 \<le> m2" "m2 \<le> 50"
    using assms unfolding ascii_digit_def by fastforce
  then show ?thesis
    by cases (simp_all add: re_m_def re_char_def re_range_def)
qed

lemma re_dd_two:
  assumes "ascii_digit d1" "ascii_digit d2"
    and "1 \<le> 10 * (d1 - 48) + (d2 - 48)" "10 * (d1 - 48) + (d2 - 48) \<le> 31"
  shows "\<exists>more. re_dd (d1 # d2 # r) = (10 * (d1 - 48) + (d2 - 48), r) # more"
proof -
  consider "d1 = 48" "49 \<le> d2" "d2 \<le> 57"
    | "d1 = 49" "48 \<le> d2" "d2 \<le> 57"
    | "d1 = 50" "48 \<le> d2" "d2 \<le> 57"
    | "d1 = 51" "48 \<le> d2" "d2 \<le> 49"
    using assms unfolding ascii_digit_def by fastforce
  then show ?thesis
    by cases (simp_all add: re_dd_def re_char_def re_range_def re_d_ascii)
qed

lemma strptime_digits:
  assumes dig: "list_all ascii_digit [y1, y2, y3, y4, m1, m2, d1, d2]"
    and y: "year dt = int (1000 * (y1 - 48) + 100 * (y2 - 48) + 10 * (y3 - 48) + (y4 - 48))"
    and m: "month dt = int (10 * (m1 - 48) + (m2 - 48))"
    and d: "day dt = int (10 * (d1 - 48) + (d2 - 48))"
    and valid: "valid_date dt"
  shows "strptime [y1, y2, y3, y4, 46, m1, m2, 46, d1, d2] = Some dt"
proof -
  define yv where "yv = 1000 * (y1 - 48) + 100 * (y2 - 48) + 10 * (y3 - 48) + (y4 - 48)"
  define mv where "mv = 10 * (m1 - 48) + (m2 - 48)"
  define dv where "dv = 10 * (d1 - 48) + (d2 - 48)"
  have mb: "1 \<le> mv" "mv \<le> 12"
    using valid m by (simp_all add: valid_date_def mv_def)
  have db: "1 \<le> dv" "dv \<le> 31"
    using valid d days_in_month_bounds [of "month dt" "year dt"]
    by (simp_all add: valid_date_def dv_def)
  have Y: "re_Y (y1 # y2 # y3 # y4 # 46 # m1 # m2 # 46 # d1 # d2 # []) = [(yv, 46 # m1 # m2 # 46 # d1 # d2 # [])]"
    unfolding yv_def using dig by (intro re_Y_ascii) simp_all
  obtain more1 where M: "re_m (m1 # m2 # 46 # d1 # d2 # []) = (mv, 46 # d1 # d2 # []) # more1"
    using re_m_two [of m1 m2 "46 # d1 # d2 # []"] dig mb unfolding mv_def by auto
  obtain more2 where D: "re_dd (d1 # d2 # []) = (dv, []) # more2"
    using re_dd_two [of d1 d2 "[]"] dig db unfolding dv_def by auto
  have "\<exists>more. re_format [y1, y2, y3, y4, 46, m1, m2, 46, d1, d2] = ((yv, mv, dv), []) # more"
    by (simp add: re_format_def Y M D re_char_def)
  then obtain more where F: "re_format [y1, y2, y3, y4, 46, m1, m2, 46, d1, d2] = ((yv, mv, dv), []) # more"
    by blast
  have dt: "dt = \<lparr>year = int yv, month = int mv, day = int dv\<rparr>"
    using y m d unfolding yv_def mv_def dv_def by simp
  have "new_date (int yv) (int mv) (int dv) = Inr dt"
    unfolding dt by (rule new_date_valid) (use valid dt in simp)
  then show ?thesis by (simp add: strptime_def F)
qed

lemma ascii_digit_value: "ascii_digit c \<Longrightarrow> c - 48 < 10 \<and> 48 + (c - 48) = c"
  by (auto simp: ascii_digit_def)

lemma strftime_digits:
  assumes dig: "list_all ascii_digit [y1, y2, y3, y4, m1, m2, d1, d2]"
    and y: "year dt = int (1000 * (y1 - 48) + 100 * (y2 - 48) + 10 * (y3 - 48) + (y4 - 48))"
    and m: "month dt = int (10 * (m1 - 48) + (m2 - 48))"
    and d: "day dt = int (10 * (d1 - 48) + (d2 - 48))"
    and style: "ys = ZeroPadded \<or> 1000 \<le> year dt"
  shows "strftime ys dt = [y1, y2, y3, y4, 46, m1, m2, 46, d1, d2]"
proof -
  note v = ascii_digit_value
  have a: "ascii_digit y1" "ascii_digit y2" "ascii_digit y3" "ascii_digit y4"
    "ascii_digit m1" "ascii_digit m2" "ascii_digit d1" "ascii_digit d2"
    using dig by simp_all
  have p4: "pad4 (nat (year dt)) = [y1, y2, y3, y4]"
    unfolding y nat_int
    using pad4_digits [of "y1 - 48" "y2 - 48" "y3 - 48" "y4 - 48"] a(1-4) [THEN v] by simp
  have pm: "pad2 (nat (month dt)) = [m1, m2]"
    unfolding m nat_int
    using pad2_digits [of "m1 - 48" "m2 - 48"] a(5,6) [THEN v] by simp
  have pd: "pad2 (nat (day dt)) = [d1, d2]"
    unfolding d nat_int
    using pad2_digits [of "d1 - 48" "d2 - 48"] a(7,8) [THEN v] by simp
  have un: "str_nat (nat (year dt)) = [y1, y2, y3, y4]" if big: "1000 \<le> year dt"
  proof -
    have "0 < y1 - 48"
    proof (rule ccontr)
      assume "\<not> 0 < y1 - 48"
      then have "year dt \<le> int (100 * 9 + 10 * 9 + 9)"
        unfolding y using a(2-4) [THEN v] by simp
      with big show False by simp
    qed
    then show ?thesis
      unfolding y nat_int
      using str_nat_digits [of "y1 - 48" "y2 - 48" "y3 - 48" "y4 - 48"] a(1-4) [THEN v] by simp
  qed
  show ?thesis
    using style p4 pm pd un by (cases ys) (auto simp: strftime_def lit_Nil lit_Cons)
qed

text \<open>
  Claim C8, as the code has it. A text \<^verbatim>\<open>YYYY.MM.DD\<close> of ASCII digits that denotes a date
  of the calendar is parsed to that date. Rendering the date gives the text back
  where \<^verbatim>\<open>%Y\<close> is zero-padded, and on every platform when the year is at least 1000.
\<close>

theorem Birthday_round_trip:
  assumes "list_all ascii_digit [y1, y2, y3, y4, m1, m2, d1, d2]"
    and "year dt = int (1000 * (y1 - 48) + 100 * (y2 - 48) + 10 * (y3 - 48) + (y4 - 48))"
    and "month dt = int (10 * (m1 - 48) + (m2 - 48))"
    and "day dt = int (10 * (d1 - 48) + (d2 - 48))"
    and "valid_date dt"
  shows "Birthday [y1, y2, y3, y4, 46, m1, m2, 46, d1, d2] = Inr dt
     \<and> Birthday_str ZeroPadded dt = [y1, y2, y3, y4, 46, m1, m2, 46, d1, d2]
     \<and> (1000 \<le> year dt \<longrightarrow>
          Birthday_str Unpadded dt = [y1, y2, y3, y4, 46, m1, m2, 46, d1, d2])"
  using strptime_digits [OF assms] strftime_digits [OF assms(1-4)]
  by (simp add: Birthday_def Birthday_str_def)

theorem Birthday_round_trip_witness:
  "Birthday (lit ''2024.05.17'') = Inr \<lparr>year = 2024, month = 5, day = 17\<rparr>
   \<and> Birthday_str ZeroPadded \<lparr>year = 2024, month = 5, day = 17\<rparr> = lit ''2024.05.17''
   \<and> Birthday_str Unpadded \<lparr>year = 2024, month = 5, day = 17\<rparr> = lit ''2024.05.17''"
  using Birthday_round_trip [of 50 48 50 52 48 53 49 55 "\<lparr>year = 2024, month = 5, day = 17\<rparr>"]
  by (simp add: ascii_digit_def valid_date_def days_in_month_def is_leap_def lit_Nil lit_Cons)

text \<open>
  Claim C8, as stated, fails where \<^verbatim>\<open>%Y\<close> is not padded (the GNU C library under
  CPython up to 3.12): \<^verbatim>\<open>0999.01.01\<close> is parsed and comes back as \<^verbatim>\<open>999.01.01\<close>.
\<close>

theorem Birthday_year_999_unpadded:
  "Birthday (lit ''0999.01.01'') = Inr \<lparr>year = 999, month = 1, day = 1\<rparr>
   \<and> Birthday_str Unpadded \<lparr>year = 999, month = 1, day = 1\<rparr> = lit ''999.01.01''
   \<and> lit ''999.01.01'' \<noteq> lit ''0999.01.01''"
  by (simp add: Birthday_def strptime_def re_format_def re_Y_def re_m_def re_dd_def
      re_d_ascii re_range_def re_char_def lit_Nil lit_Cons new_date_def days_in_month_def
      is_leap_def Birthday_str_def strftime_def str_nat.simps pad2_def)

subsection \<open>The scan as a grouping\<close>

text \<open>
  The dictionary that the first loop builds is the grouping of the pairs that the
  records contribute, and the second loop lists it group by group.
\<close>

lemma first_seen_snoc:
  "first_seen (xs @ [x]) = (if x \<in> set xs then first_seen xs else first_seen xs @ [x])"
  by (simp add: first_seen_def)

lemma set_first_seen: "set (first_seen xs) = set xs"
  by (simp add: first_seen_def)

lemma distinct_first_seen: "distinct (first_seen xs)"
  by (simp add: first_seen_def)

lemma map_entry_keyed:
  "distinct ks \<Longrightarrow>
   AList.map_entry c g (map (\<lambda>k. (k, f k)) ks) = map (\<lambda>k. (k, if k = c then g (f k) else f k)) ks"
proof (induction ks)
  case Nil
  show ?case by simp
next
  case (Cons k ks)
  show ?case
  proof (cases "k = c")
    case True
    with Cons.prems have "c \<notin> set ks" by simp
    then have "map (\<lambda>k. (k, if k = c then g (f k) else f k)) ks = map (\<lambda>k. (k, f k)) ks"
      by (intro map_cong) auto
    with True show ?thesis by simp
  next
    case False
    with Cons show ?thesis by simp
  qed
qed

lemma map_of_grouped: "map_of (grouped qs) c = None \<longleftrightarrow> c \<notin> fst ` set qs"
  by (simp add: grouped_def map_of_eq_None_iff image_image set_first_seen)

lemma note_birthday_grouped:
  "note_birthday c nm (grouped qs) = grouped (qs @ [(c, nm)])"
proof -
  define F where "F ps = (\<lambda>k. (k, (k, map snd (filter (\<lambda>q. fst q = k) ps))))" for ps :: "(date \<times> pystr) list"
  define ks where "ks = first_seen (map fst qs)"
  have G: "grouped ps = map (F ps) (first_seen (map fst ps))" for ps
    by (simp add: grouped_def F_def)
  have ks: "set ks = fst ` set qs" "distinct ks"
    by (simp_all add: ks_def set_first_seen distinct_first_seen)
  have other: "F (qs @ [(c, nm)]) k = F qs k" if "k \<noteq> c" for k
    using that by (auto simp: F_def)
  show ?thesis
  proof (cases "c \<in> fst ` set qs")
    case False
    then have none: "map_of (grouped qs) c = None" by (simp add: map_of_grouped)
    have keys: "c \<notin> fst ` set (grouped qs)"
      using False by (simp add: grouped_def image_image set_first_seen)
    have 1: "note_birthday c nm (grouped qs) = grouped qs @ [(c, (c, [nm]))]"
      using none by (simp add: note_birthday_def update_absent [OF keys])
    have "filter (\<lambda>q. fst q = c) qs = []"
      using False by (auto simp: filter_empty_conv)
    then have last: "F (qs @ [(c, nm)]) c = (c, (c, [nm]))"
      by (simp add: F_def)
    have "map (F (qs @ [(c, nm)])) ks = map (F qs) ks"
      using False ks(1) by (intro map_cong refl other) auto
    then have 2: "grouped (qs @ [(c, nm)]) = grouped qs @ [(c, (c, [nm]))]"
      using False by (simp add: G first_seen_snoc last ks_def)
    from 1 2 show ?thesis by simp
  next
    case True
    then have some: "map_of (grouped qs) c \<noteq> None" by (simp add: map_of_grouped)
    have 1: "note_birthday c nm (grouped qs)
        = AList.map_entry c (\<lambda>(cd, users). (cd, users @ [nm])) (map (\<lambda>k. (k, snd (F qs k))) ks)"
    proof -
      have "note_birthday c nm (grouped qs)
          = AList.map_entry c (\<lambda>(cd, users). (cd, users @ [nm])) (grouped qs)"
        using some by (auto simp: note_birthday_def)
      moreover have "grouped qs = map (\<lambda>k. (k, snd (F qs k))) ks"
        by (simp add: G ks_def F_def)
      ultimately show ?thesis by simp
    qed
    have 2: "AList.map_entry c (\<lambda>(cd, users). (cd, users @ [nm])) (map (\<lambda>k. (k, snd (F qs k))) ks)
        = map (\<lambda>k. (k, if k = c then (\<lambda>(cd, users). (cd, users @ [nm])) (snd (F qs k))
                         else snd (F qs k))) ks"
      by (rule map_entry_keyed) (rule ks(2))
    have 3: "map (\<lambda>k. (k, if k = c then (\<lambda>(cd, users). (cd, users @ [nm])) (snd (F qs k))
                         else snd (F qs k))) ks
        = map (F (qs @ [(c, nm)])) ks"
      by (intro map_cong refl) (auto simp: F_def)
    have 4: "grouped (qs @ [(c, nm)]) = map (F (qs @ [(c, nm)])) ks"
      using True by (simp add: G first_seen_snoc ks_def)
    from 1 2 3 4 show ?thesis by simp
  qed
qed

lemma foldl_note_birthday:
  "foldl (\<lambda>bd q. note_birthday (fst q) (snd q) bd) (grouped ps) qs = grouped (ps @ qs)"
proof (induction qs arbitrary: ps)
  case Nil
  show ?case by simp
next
  case (Cons q qs)
  have "note_birthday (fst q) (snd q) (grouped ps) = grouped (ps @ [q])"
    using note_birthday_grouped [of "fst q" "snd q" ps] by simp
  then show ?case using Cons [of "ps @ [q]"] by simp
qed

lemma scan_records_Inr:
  "scan_records today rs bd = Inr bd' \<Longrightarrow>
   bd' = foldl (\<lambda>bd q. note_birthday (fst q) (snd q) bd) bd (concat (map (upcoming_of today) rs))"
proof (induction rs arbitrary: bd)
  case Nil
  then show ?case by simp
next
  case (Cons r rs)
  show ?case
  proof (cases "birthday r")
    case None
    with Cons show ?thesis by (simp add: upcoming_of_def)
  next
    case (Some b)
    from Cons.prems Some obtain bty where bty: "birthday_this_year today b = Inr bty"
      by (cases "birthday_this_year today b") auto
    from Cons.prems Some bty obtain c where c: "congratulation bty = Inr c"
      by (cases "congratulation bty") auto
    have obs: "observed_date today b = Inr c"
      by (simp add: observed_date_def bty c)
    show ?thesis
    proof (cases "days_between c today \<le> 7")
      case True
      with Cons.prems Some bty c
      have "scan_records today rs (note_birthday c (name r) bd) = Inr bd'" by simp
      from Cons.IH [OF this] show ?thesis
        using True Some obs by (simp add: upcoming_of_def)
    next
      case False
      with Cons.prems Some bty c have "scan_records today rs bd = Inr bd'" by simp
      from Cons.IH [OF this] show ?thesis
        using False Some obs by (simp add: upcoming_of_def)
    qed
  qed
qed

lemma scan_records_observed:
  "scan_records today rs bd = Inr bd' \<Longrightarrow> r \<in> set rs \<Longrightarrow> birthday r = Some b \<Longrightarrow>
   \<exists>c. observed_date today b = Inr c"
proof (induction rs arbitrary: bd)
  case Nil
  then show ?case by simp
next
  case (Cons a rs)
  show ?case
  proof (cases "birthday a")
    case None
    with Cons show ?thesis by auto
  next
    case (Some ba)
    from Cons.prems(1) Some obtain bty where bty: "birthday_this_year today ba = Inr bty"
      by (cases "birthday_this_year today ba") auto
    from Cons.prems(1) Some bty obtain c where c: "congratulation bty = Inr c"
      by (cases "congratulation bty") auto
    have obs: "observed_date today ba = Inr c"
      by (simp add: observed_date_def bty c)
    from Cons.prems(1) Some bty c obtain bd1 where rest: "scan_records today rs bd1 = Inr bd'"
      by (cases "days_between c today \<le> 7") auto
    show ?thesis
    proof (cases "r = a")
      case True
      with Cons.prems(3) Some obs show ?thesis by auto
    next
      case False
      with Cons.prems(2) have "r \<in> set rs" by simp
      from Cons.IH [OF rest this Cons.prems(3)] show ?thesis .
    qed
  qed
qed

lemma scan_records_total:
  "(\<forall>r\<in>set rs. \<forall>b. birthday r = Some b \<longrightarrow> (\<exists>c. observed_date today b = Inr c)) \<Longrightarrow>
   \<exists>bd'. scan_records today rs bd = Inr bd'"
proof (induction rs arbitrary: bd)
  case Nil
  show ?case by simp
next
  case (Cons r rs)
  then have IH: "\<And>bd. \<exists>bd'. scan_records today rs bd = Inr bd'" by simp
  show ?case
  proof (cases "birthday r")
    case None
    with IH show ?thesis by simp
  next
    case (Some b)
    with Cons.prems obtain c where "observed_date today b = Inr c" by auto
    then obtain bty where "birthday_this_year today b = Inr bty" "congratulation bty = Inr c"
      by (auto simp: observed_date_def split: sum.splits)
    with Some IH show ?thesis by simp
  qed
qed

lemma entries_of_grouped: "entries_of today (grouped qs) = in_groups today qs"
  by (simp add: entries_of_def grouped_def in_groups_def comp_def)

lemma grouped_Nil: "grouped [] = []"
  by (simp add: grouped_def first_seen_def)

lemma get_upcoming_birthdays_Inr:
  assumes "get_upcoming_birthdays today book = Inr res"
  shows "res = in_groups today (concat (map (upcoming_of today) (map snd book)))"
proof -
  from assms obtain bd where bd: "scan_records today (map snd book) [] = Inr bd"
    and res: "res = entries_of today bd"
    by (auto simp: get_upcoming_birthdays_def split: sum.splits)
  have "bd = grouped ([] @ concat (map (upcoming_of today) (map snd book)))"
    using scan_records_Inr [OF bd] foldl_note_birthday [of "[]"] by (simp add: grouped_Nil)
  then show ?thesis using res by (simp add: entries_of_grouped)
qed

lemma set_in_groups:
  "set (in_groups today qs) =
     (\<lambda>q. \<lparr>entry_name = snd q, congratulation_date = fst q,
            days_until_birthday = days_between (fst q) today\<rparr>) ` set qs"
  by (auto simp: in_groups_def set_first_seen)

subsection \<open>The observed date is never before today\<close>

lemma replace_year_Inr:
  "replace_year d y = Inr x \<Longrightarrow>
   valid_date x \<and> year x = y \<and> month x = month d \<and> day x = day d"
  unfolding replace_year_def by (rule new_date_Inr)

lemma birthday_this_year_not_before:
  assumes "valid_date today" "birthday_this_year today b = Inr bty"
  shows "valid_date bty \<and> toordinal today \<le> toordinal bty"
proof -
  from assms(2) obtain p where p: "replace_year b (year today) = Inr p"
    by (cases "replace_year b (year today)") (auto simp: birthday_this_year_def)
  note vp = replace_year_Inr [OF p]
  show ?thesis
  proof (cases "date_less p today")
    case True
    with assms(2) p have q: "replace_year p (year today + 1) = Inr bty"
      by (simp add: birthday_this_year_def)
    note vq = replace_year_Inr [OF q]
    have "date_less today bty" using vq by (simp add: date_less_def)
    then have "toordinal today < toordinal bty"
      using assms(1) vq by (intro toordinal_less) auto
    then show ?thesis using vq by simp
  next
    case False
    with assms(2) p have "bty = p" by (simp add: birthday_this_year_def)
    then show ?thesis
      using toordinal_le [of today p] assms(1) vp False by simp
  qed
qed

lemma congratulation_Saturday: "weekday bty = 5 \<Longrightarrow> congratulation bty = add_days bty 2"
  unfolding congratulation_def by (rule if_P)

lemma congratulation_Sunday: "weekday bty = 6 \<Longrightarrow> congratulation bty = add_days bty 1"
  unfolding congratulation_def by (subst if_not_P, simp, rule if_P)

lemma congratulation_weekday:
  "weekday bty \<noteq> 5 \<Longrightarrow> weekday bty \<noteq> 6 \<Longrightarrow> congratulation bty = Inr bty"
  unfolding congratulation_def by (subst if_not_P, assumption, rule if_not_P)

lemma congratulation_not_before:
  assumes "valid_date bty" "congratulation bty = Inr c"
  shows "toordinal bty \<le> toordinal c"
proof (cases "weekday bty = 5")
  case True
  with assms(2) have "add_days bty 2 = Inr c" by (simp only: congratulation_Saturday)
  from add_days_Inr [OF assms(1) this] show ?thesis by simp
next
  case sat: False
  show ?thesis
  proof (cases "weekday bty = 6")
    case True
    with assms(2) have "add_days bty 1 = Inr c" by (simp only: congratulation_Sunday)
    from add_days_Inr [OF assms(1) this] show ?thesis by simp
  next
    case False
    from congratulation_weekday [OF sat False] assms(2) have "bty = c" by simp
    then show ?thesis by simp
  qed
qed

lemma observed_date_not_before:
  assumes "valid_date today" "observed_date today b = Inr c"
  shows "0 \<le> days_between c today"
proof -
  from assms(2) obtain bty where bty: "birthday_this_year today b = Inr bty"
    and c: "congratulation bty = Inr c"
    by (auto simp: observed_date_def split: sum.splits)
  from birthday_this_year_not_before [OF assms(1) bty] congratulation_not_before [OF _ c]
  show ?thesis by (simp add: days_between_def)
qed

subsection \<open>Evaluating the query\<close>

lemmas calendar_eval =
  birthday_this_year_def replace_year_def new_date_def days_in_month_def is_leap_def
  date_less_def congratulation_def weekday_def toordinal_def days_before_year_def
  days_before_month_def days_between_def next_day_def numeral_2_eq_2

lemmas scan_eval =
  get_upcoming_birthdays_def note_birthday_def entries_of_def observed_date_def

lemma upcoming_example_three:
  "get_upcoming_birthdays \<lparr>year = 2024, month = 5, day = 13\<rparr>
     [(lit ''Ann'', \<lparr>name = lit ''Ann'', phones = [], birthday = Some \<lparr>year = 1990, month = 5, day = 17\<rparr>\<rparr>),
      (lit ''Bob'', \<lparr>name = lit ''Bob'', phones = [], birthday = Some \<lparr>year = 1985, month = 5, day = 15\<rparr>\<rparr>),
      (lit ''Cyd'', \<lparr>name = lit ''Cyd'', phones = [], birthday = Some \<lparr>year = 2001, month = 5, day = 17\<rparr>\<rparr>)]
   = Inr [\<lparr>entry_name = lit ''Ann'', congratulation_date = \<lparr>year = 2024, month = 5, day = 17\<rparr>, days_until_birthday = 4\<rparr>,
          \<lparr>entry_name = lit ''Cyd'', congratulation_date = \<lparr>year = 2024, month = 5, day = 17\<rparr>, days_until_birthday = 4\<rparr>,
          \<lparr>entry_name = lit ''Bob'', congratulation_date = \<lparr>year = 2024, month = 5, day = 15\<rparr>, days_until_birthday = 2\<rparr>]"
  by (simp add: scan_eval calendar_eval)

lemma upcoming_example_week:
  "get_upcoming_birthdays \<lparr>year = 2024, month = 5, day = 13\<rparr>
     [(lit ''Dan'', \<lparr>name = lit ''Dan'', phones = [], birthday = Some \<lparr>year = 1990, month = 5, day = 20\<rparr>\<rparr>),
      (lit ''Fay'', \<lparr>name = lit ''Fay'', phones = [], birthday = Some \<lparr>year = 1990, month = 5, day = 21\<rparr>\<rparr>)]
   = Inr [\<lparr>entry_name = lit ''Dan'', congratulation_date = \<lparr>year = 2024, month = 5, day = 20\<rparr>, days_until_birthday = 7\<rparr>]"
  by (simp add: scan_eval calendar_eval)

subsection \<open>Inside the window\<close>

text \<open>
  Claim C3. Let the query return for the day \<open>today\<close>. A contact of the book with a
  birthday then has an observed date, and the entry of the contact with that date is
  in the result exactly when the date is from 0 to 7 days after today. The source
  tests only the upper bound; the lower one holds of every observed date.
\<close>

theorem upcoming_iff_within_week:
  assumes "valid_date today"
    and "get_upcoming_birthdays today book = Inr res"
    and "(k, r) \<in> set book"
    and "birthday r = Some b"
  shows "\<exists>c. observed_date today b = Inr c
     \<and> (\<lparr>entry_name = name r, congratulation_date = c,
          days_until_birthday = days_between c today\<rparr> \<in> set res
        \<longleftrightarrow> 0 \<le> days_between c today \<and> days_between c today \<le> 7)"
proof -
  from assms(2) obtain bd where bd: "scan_records today (map snd book) [] = Inr bd"
    by (auto simp: get_upcoming_birthdays_def split: sum.splits)
  have rin: "r \<in> set (map snd book)" using assms(3) by force
  from scan_records_observed [OF bd rin assms(4)]
  obtain c where c: "observed_date today b = Inr c" by blast
  have nonneg: "0 \<le> days_between c today"
    using assms(1) c by (rule observed_date_not_before)
  let ?qs = "concat (map (upcoming_of today) (map snd book))"
  have res: "set res = (\<lambda>q. \<lparr>entry_name = snd q, congratulation_date = fst q,
            days_until_birthday = days_between (fst q) today\<rparr>) ` set ?qs"
    using get_upcoming_birthdays_Inr [OF assms(2)] by (simp only: set_in_groups)
  have "\<lparr>entry_name = name r, congratulation_date = c,
          days_until_birthday = days_between c today\<rparr> \<in> set res \<longleftrightarrow> (c, name r) \<in> set ?qs"
    unfolding res by force
  also have "\<dots> \<longleftrightarrow> days_between c today \<le> 7"
  proof
    assume "(c, name r) \<in> set ?qs"
    then obtain r' where "(c, name r) \<in> set (upcoming_of today r')" by auto
    then show "days_between c today \<le> 7"
      by (auto simp: upcoming_of_def split: option.splits sum.splits if_splits)
  next
    assume "days_between c today \<le> 7"
    then have "(c, name r) \<in> set (upcoming_of today r)"
      using assms(4) c by (simp add: upcoming_of_def)
    then show "(c, name r) \<in> set ?qs" using rin by auto
  qed
  finally show ?thesis using c nonneg by simp
qed

theorem upcoming_iff_within_week_witness:
  "(\<exists>c. observed_date \<lparr>year = 2024, month = 5, day = 13\<rparr> \<lparr>year = 1990, month = 5, day = 20\<rparr> = Inr c
        \<and> days_between c \<lparr>year = 2024, month = 5, day = 13\<rparr> = 7
        \<and> \<lparr>entry_name = lit ''Dan'', congratulation_date = c, days_until_birthday = 7\<rparr>
            \<in> set [\<lparr>entry_name = lit ''Dan'', congratulation_date = \<lparr>year = 2024, month = 5, day = 20\<rparr>, days_until_birthday = 7\<rparr>])
   \<and> (\<exists>c. observed_date \<lparr>year = 2024, month = 5, day = 13\<rparr> \<lparr>year = 1990, month = 5, day = 21\<rparr> = Inr c
        \<and> days_between c \<lparr>year = 2024, month = 5, day = 13\<rparr> = 8
        \<and> \<lparr>entry_name = lit ''Fay'', congratulation_date = c, days_until_birthday = 8\<rparr>
            \<notin> set [\<lparr>entry_name = lit ''Dan'', congratulation_date = \<lparr>year = 2024, month = 5, day = 20\<rparr>, days_until_birthday = 7\<rparr>])"
proof -
  have v: "valid_date \<lparr>year = 2024, month = 5, day = 13\<rparr>"
    by (simp add: valid_date_def days_in_month_def is_leap_def)
  have oD: "observed_date \<lparr>year = 2024, month = 5, day = 13\<rparr> \<lparr>year = 1990, month = 5, day = 20\<rparr> = Inr \<lparr>year = 2024, month = 5, day = 20\<rparr>"
    and oF: "observed_date \<lparr>year = 2024, month = 5, day = 13\<rparr> \<lparr>year = 1990, month = 5, day = 21\<rparr> = Inr \<lparr>year = 2024, month = 5, day = 21\<rparr>"
    by (simp_all add: observed_date_def calendar_eval)
  have dD: "days_between \<lparr>year = 2024, month = 5, day = 20\<rparr> \<lparr>year = 2024, month = 5, day = 13\<rparr> = 7"
    and dF: "days_between \<lparr>year = 2024, month = 5, day = 21\<rparr> \<lparr>year = 2024, month = 5, day = 13\<rparr> = 8"
    by (simp_all add: calendar_eval)
  have "\<lparr>entry_name = lit ''Dan'', congratulation_date = \<lparr>year = 2024, month = 5, day = 20\<rparr>, days_until_birthday = 7\<rparr> \<in> set [\<lparr>entry_name = lit ''Dan'', congratulation_date = \<lparr>year = 2024, month = 5, day = 20\<rparr>, days_until_birthday = 7\<rparr>]"
    using upcoming_iff_within_week [OF v upcoming_example_week,
      of "lit ''Dan''" "\<lparr>name = lit ''Dan'', phones = [], birthday = Some \<lparr>year = 1990, month = 5, day = 20\<rparr>\<rparr>" "\<lparr>year = 1990, month = 5, day = 20\<rparr>"] oD dD
    by simp
  moreover have "\<lparr>entry_name = lit ''Fay'', congratulation_date = \<lparr>year = 2024, month = 5, day = 21\<rparr>, days_until_birthday = 8\<rparr>
      \<notin> set [\<lparr>entry_name = lit ''Dan'', congratulation_date = \<lparr>year = 2024, month = 5, day = 20\<rparr>, days_until_birthday = 7\<rparr>]"
    using upcoming_iff_within_week [OF v upcoming_example_week,
      of "lit ''Fay''" "\<lparr>name = lit ''Fay'', phones = [], birthday = Some \<lparr>year = 1990, month = 5, day = 21\<rparr>\<rparr>" "\<lparr>year = 1990, month = 5, day = 21\<rparr>"] oF dF
    by simp
  ultimately show ?thesis using oD oF dD dF by simp
qed

subsection \<open>The order of the result\<close>

text \<open>
  Claim C2, as the code has it. The result lists the qualifying contacts in groups of
  equal observed date; the groups come in the order in which their dates are first
  met while the records are scanned, and inside a group the contacts keep the order
  of the scan.
\<close>

theorem upcoming_in_first_seen_groups:
  assumes "get_upcoming_birthdays today book = Inr res"
  shows "res = in_groups today (concat (map (upcoming_of today) (map snd book)))"
  using assms by (rule get_upcoming_birthdays_Inr)

theorem upcoming_in_first_seen_groups_witness:
  "in_groups \<lparr>year = 2024, month = 5, day = 13\<rparr>
     (concat (map (upcoming_of \<lparr>year = 2024, month = 5, day = 13\<rparr>) (map snd
       [(lit ''Ann'', \<lparr>name = lit ''Ann'', phones = [], birthday = Some \<lparr>year = 1990, month = 5, day = 17\<rparr>\<rparr>),
        (lit ''Bob'', \<lparr>name = lit ''Bob'', phones = [], birthday = Some \<lparr>year = 1985, month = 5, day = 15\<rparr>\<rparr>),
        (lit ''Cyd'', \<lparr>name = lit ''Cyd'', phones = [], birthday = Some \<lparr>year = 2001, month = 5, day = 17\<rparr>\<rparr>)])))
   = [\<lparr>entry_name = lit ''Ann'', congratulation_date = \<lparr>year = 2024, month = 5, day = 17\<rparr>, days_until_birthday = 4\<rparr>,
      \<lparr>entry_name = lit ''Cyd'', congratulation_date = \<lparr>year = 2024, month = 5, day = 17\<rparr>, days_until_birthday = 4\<rparr>,
      \<lparr>entry_name = lit ''Bob'', congratulation_date = \<lparr>year = 2024, month = 5, day = 15\<rparr>, days_until_birthday = 2\<rparr>]"
  using upcoming_in_first_seen_groups [OF upcoming_example_three] by simp

text \<open>
  Claim C2, as stated, fails: the groups are not sorted by date. On Monday 2024-05-13
  a contact born on 17 May that is scanned before one born on 15 May is listed first.
\<close>

theorem upcoming_not_by_date:
  "get_upcoming_birthdays \<lparr>year = 2024, month = 5, day = 13\<rparr>
     [(lit ''Ann'', \<lparr>name = lit ''Ann'', phones = [], birthday = Some \<lparr>year = 1990, month = 5, day = 17\<rparr>\<rparr>),
      (lit ''Bob'', \<lparr>name = lit ''Bob'', phones = [], birthday = Some \<lparr>year = 1985, month = 5, day = 15\<rparr>\<rparr>)]
   = Inr [\<lparr>entry_name = lit ''Ann'', congratulation_date = \<lparr>year = 2024, month = 5, day = 17\<rparr>, days_until_birthday = 4\<rparr>,
          \<lparr>entry_name = lit ''Bob'', congratulation_date = \<lparr>year = 2024, month = 5, day = 15\<rparr>, days_until_birthday = 2\<rparr>]
   \<and> date_less \<lparr>year = 2024, month = 5, day = 15\<rparr> \<lparr>year = 2024, month = 5, day = 17\<rparr>"
  by (simp add: scan_eval calendar_eval)

subsection \<open>A birthday on a Saturday\<close>

lemma year_next_day: "year (next_day d) \<le> year d + 1"
  by (simp add: next_day_def)

lemma add_days_total: "year d + int n \<le> 9999 \<Longrightarrow> \<exists>d'. add_days d n = Inr d'"
proof (induction n arbitrary: d)
  case 0
  show ?case by simp
next
  case (Suc n)
  then have "year (next_day d) + int n \<le> 9999"
    using year_next_day [of d] by simp
  from Suc.IH [OF this] Suc.prems show ?case by auto
qed

lemma congratulation_total: "year bty \<le> 9997 \<Longrightarrow> \<exists>c. congratulation bty = Inr c"
  using add_days_total [of bty 2] add_days_total [of bty 1]
  by (cases "weekday bty = 5"; cases "weekday bty = 6")
     (simp_all add: congratulation_Saturday congratulation_Sunday congratulation_weekday)

lemma days_in_month_2024:
  "1 \<le> m \<Longrightarrow> m \<le> 12 \<Longrightarrow> days_in_month y m \<le> days_in_month 2024 m"
  using month_cases [of m] by (auto simp: days_in_month_def is_leap_def)

lemma days_in_month_2025:
  "1 \<le> m \<Longrightarrow> m \<le> 12 \<Longrightarrow> d \<le> days_in_month y m \<Longrightarrow> \<not> (m = 2 \<and> d = 29) \<Longrightarrow>
   d \<le> days_in_month 2025 m"
  using month_cases [of m] by (auto simp: days_in_month_def is_leap_def split: if_splits)

lemma observed_date_2024_05_17_total:
  assumes "valid_date b" "\<not> (month b = 2 \<and> day b = 29)"
  shows "\<exists>c. observed_date \<lparr>year = 2024, month = 5, day = 17\<rparr> b = Inr c"
proof -
  let ?today = "\<lparr>year = 2024, month = 5, day = 17\<rparr>"
  have m: "1 \<le> month b" "month b \<le> 12" "1 \<le> day b"
    "day b \<le> days_in_month (year b) (month b)"
    using assms(1) by (simp_all add: valid_date_def)
  have d24: "day b \<le> days_in_month 2024 (month b)"
    using days_in_month_2024 [OF m(1,2), of "year b"] m(4) by simp
  have d25: "day b \<le> days_in_month 2025 (month b)"
    using days_in_month_2025 [OF m(1,2,4)] assms(2) by simp
  define p where "p = \<lparr>year = 2024, month = month b, day = day b\<rparr>"
  define q where "q = \<lparr>year = 2025, month = month b, day = day b\<rparr>"
  have p: "replace_year b 2024 = Inr p"
    using m d24 by (simp add: replace_year_def new_date_def p_def)
  have q: "replace_year p 2025 = Inr q"
    using m d25 by (simp add: replace_year_def new_date_def p_def q_def)
  have "birthday_this_year ?today b = Inr (if date_less p ?today then q else p)"
    using p q by (simp add: birthday_this_year_def)
  moreover have "year (if date_less p ?today then q else p) \<le> 9997"
    by (simp add: p_def q_def)
  ultimately show ?thesis
    using congratulation_total [of "if date_less p ?today then q else p"]
    by (auto simp: observed_date_def)
qed

lemma observed_date_05_18:
  assumes "month b = 5" "day b = 18"
  shows "observed_date \<lparr>year = 2024, month = 5, day = 17\<rparr> b
     = Inr \<lparr>year = 2024, month = 5, day = 20\<rparr>"
  using assms by (simp add: observed_date_def calendar_eval)

text \<open>
  Today is Friday 2024-05-17 and the book holds a contact whose birthday falls on
  18 May, a Saturday in 2024. Where the stored birthdays are dates of the calendar
  and none of them is a 29 February, the query returns and its result has the entry
  of that contact with the observed date Monday 2024-05-20 and three days to go.
\<close>

lemma saturday_birthday_without_feb29:
  assumes "(k, r) \<in> set book"
    and "birthday r = Some b"
    and "month b = 5" and "day b = 18"
    and "\<forall>(k', r')\<in>set book. \<forall>b'. birthday r' = Some b' \<longrightarrow>
           valid_date b' \<and> \<not> (month b' = 2 \<and> day b' = 29)"
  shows "weekday \<lparr>year = 2024, month = 5, day = 17\<rparr> = 4
     \<and> weekday \<lparr>year = 2024, month = 5, day = 18\<rparr> = 5
     \<and> (\<exists>res. get_upcoming_birthdays \<lparr>year = 2024, month = 5, day = 17\<rparr> book = Inr res
           \<and> \<lparr>entry_name = name r,
               congratulation_date = \<lparr>year = 2024, month = 5, day = 20\<rparr>,
               days_until_birthday = 3\<rparr> \<in> set res)"
proof -
  let ?today = "\<lparr>year = 2024, month = 5, day = 17\<rparr>"
  let ?c = "\<lparr>year = 2024, month = 5, day = 20\<rparr>"
  have wd: "weekday ?today = 4" "weekday \<lparr>year = 2024, month = 5, day = 18\<rparr> = 5"
    by (simp_all add: calendar_eval)
  have "\<forall>r'\<in>set (map snd book). \<forall>b'. birthday r' = Some b' \<longrightarrow>
          (\<exists>c. observed_date ?today b' = Inr c)"
    using assms(5) by (auto intro!: observed_date_2024_05_17_total)
  from scan_records_total [OF this, of "[]"]
  obtain bd where "scan_records ?today (map snd book) [] = Inr bd" by blast
  then have ret: "get_upcoming_birthdays ?today book = Inr (entries_of ?today bd)"
    by (simp add: get_upcoming_birthdays_def)
  let ?qs = "concat (map (upcoming_of ?today) (map snd book))"
  have obs: "observed_date ?today b = Inr ?c"
    using assms(3,4) by (rule observed_date_05_18)
  have days: "days_between ?c ?today = 3"
    by (simp add: calendar_eval)
  have "(?c, name r) \<in> set (upcoming_of ?today r)"
    using assms(2) obs days by (simp add: upcoming_of_def)
  moreover have "r \<in> set (map snd book)" using assms(1) by force
  ultimately have "(?c, name r) \<in> set ?qs" by auto
  then have "\<lparr>entry_name = name r, congratulation_date = ?c, days_until_birthday = 3\<rparr>
      \<in> set (in_groups ?today ?qs)"
    unfolding set_in_groups using days by force
  then have "\<lparr>entry_name = name r, congratulation_date = ?c, days_until_birthday = 3\<rparr>
      \<in> set (entries_of ?today bd)"
    using get_upcoming_birthdays_Inr [OF ret] by simp
  with ret wd show ?thesis by blast
qed

text \<open>
  Claim C1. The claim has the query return that entry for every book that holds the
  contact. With the contact alone in the book it does. With a second contact born on
  29 February the source raises instead: that birthday has passed on 17 May, line 83
  projects it onto 2025, and the date constructor rejects 29 February 2025. No entry
  is returned, for the contact born on 18 May either.
\<close>

theorem saturday_birthday_beside_feb29:
  "get_upcoming_birthdays \<lparr>year = 2024, month = 5, day = 17\<rparr>
     [(lit ''Ann'', \<lparr>name = lit ''Ann'', phones = [], birthday = Some \<lparr>year = 1990, month = 5, day = 18\<rparr>\<rparr>)]
   = Inr [\<lparr>entry_name = lit ''Ann'', congratulation_date = \<lparr>year = 2024, month = 5, day = 20\<rparr>,
              days_until_birthday = 3\<rparr>]
   \<and> get_upcoming_birthdays \<lparr>year = 2024, month = 5, day = 17\<rparr>
     [(lit ''Ann'', \<lparr>name = lit ''Ann'', phones = [], birthday = Some \<lparr>year = 1990, month = 5, day = 18\<rparr>\<rparr>),
      (lit ''Leap'', \<lparr>name = lit ''Leap'', phones = [], birthday = Some \<lparr>year = 2000, month = 2, day = 29\<rparr>\<rparr>)]
   = Inl (ValueError (lit ''day is out of range for month''))"
  by (simp add: scan_eval calendar_eval)

end
